theory Spec2Isabelle
  imports Complex_Main "HOL-Library.Word" "HOL-Library.Sublist" "HOL-Library.AList"
begin

section \<open>Go values\<close>

text \<open>
  Go's \<open>int\<close> is taken at 64 bits and read as two's complement (\<open>sint\<close>): \<open>+\<close>, \<open>-\<close> and
  unary minus wrap around. \<open>len(s)\<close> is \<open>int (length s)\<close>: no slice a Go program holds
  reaches \<open>2 ^ 63\<close> elements, so the value is the one Go computes. A Go string is a
  sequence of bytes, here \<open>string\<close>. \<open>time.Time\<close> is kept as an opaque instant.
  A runtime panic is a value of type \<open>panic\<close>; a function that can panic returns
  \<open>panic + 'a\<close>. Memory exhaustion is not modelled.
\<close>

type_synonym goint = "64 word"

datatype panic = SliceBoundsOutOfRange | NilPointerDereference

subsection \<open>unicode/utf8 and unicode\<close>

definition RuneError :: nat where
  "RuneError = 0xFFFD"

text \<open>
  \<open>utf8.DecodeRuneInString\<close>: the rune at the head of the string and its width in
  bytes; an invalid or short encoding is \<open>RuneError\<close> with width 1. The three tables of
  the Go source (\<open>first\<close>, \<open>acceptRanges\<close>, the continuation range) are written as
  comparisons.
\<close>

fun DecodeRuneInString :: "string \<Rightarrow> nat \<times> nat" where
  "DecodeRuneInString [] = (RuneError, 0)"
| "DecodeRuneInString (c # cs) =
     (let s0 = (of_char c :: nat) in
      if s0 < 0x80 then (s0, 1)
      else if s0 < 0xC2 \<or> 0xF4 < s0 then (RuneError, 1)
      else
        let sz = (if s0 < 0xE0 then 2 else if s0 < 0xF0 then 3 else 4 :: nat);
            lo = (if s0 = 0xE0 then 0xA0 else if s0 = 0xF0 then 0x90 else 0x80 :: nat);
            hi = (if s0 = 0xED then 0x9F else if s0 = 0xF4 then 0x8F else 0xBF :: nat)
        in
        if length (c # cs) < sz then (RuneError, 1)
        else
          let s1 = (of_char (cs ! 0) :: nat) in
          if s1 < lo \<or> hi < s1 then (RuneError, 1)
          else if sz \<le> 2 then ((s0 mod 32) * 64 + s1 mod 64, 2)
          else
            let s2 = (of_char (cs ! 1) :: nat) in
            if s2 < 0x80 \<or> 0xBF < s2 then (RuneError, 1)
            else if sz \<le> 3 then ((s0 mod 16) * 4096 + (s1 mod 64) * 64 + s2 mod 64, 3)
            else
              let s3 = (of_char (cs ! 2) :: nat) in
              if s3 < 0x80 \<or> 0xBF < s3 then (RuneError, 1)
              else ((s0 mod 8) * 262144 + (s1 mod 64) * 4096 + (s2 mod 64) * 64 + s3 mod 64, 4))"

text \<open>
  What \<open>for i, r := range s\<close> visits: every rune of the string with the bytes it was
  decoded from.
\<close>

fun runes :: "string \<Rightarrow> (nat \<times> string) list" where
  "runes [] = []"
| "runes (c # cs) =
     (fst (DecodeRuneInString (c # cs)), take (snd (DecodeRuneInString (c # cs))) (c # cs))
       # runes (drop (snd (DecodeRuneInString (c # cs)) - 1) cs)"

text \<open>\<open>unicode.IsSpace\<close>: the Latin-1 cases, then the \<open>White_Space\<close> table.\<close>

definition IsSpace :: "nat \<Rightarrow> bool" where
  "IsSpace r =
     (if r \<le> 0xFF
      then r = 9 \<or> r = 10 \<or> r = 11 \<or> r = 12 \<or> r = 13 \<or> r = 32 \<or> r = 0x85 \<or> r = 0xA0
      else r = 0x1680 \<or> (0x2000 \<le> r \<and> r \<le> 0x200A) \<or> r = 0x2028 \<or> r = 0x2029
           \<or> r = 0x202F \<or> r = 0x205F \<or> r = 0x3000)"

text \<open>
  \<open>utf8.AppendRune\<close> as \<open>string(rune)\<close> uses it: a negative value, a surrogate or a
  value above \<open>0x10FFFF\<close> is encoded as \<open>RuneError\<close>.
\<close>

definition encoderune :: "int \<Rightarrow> string" where
  "encoderune r =
     (if 0 \<le> r \<and> r \<le> 0x7F then [char_of r]
      else if 0 \<le> r \<and> r \<le> 0x7FF then [char_of (0xC0 + r div 64), char_of (0x80 + r mod 64)]
      else if r < 0 \<or> 0x10FFFF < r \<or> (0xD800 \<le> r \<and> r \<le> 0xDFFF)
      then [char_of (0xEF :: nat), char_of (0xBF :: nat), char_of (0xBD :: nat)]
      else if r \<le> 0xFFFF
      then [char_of (0xE0 + r div 4096), char_of (0x80 + (r div 64) mod 64),
            char_of (0x80 + r mod 64)]
      else [char_of (0xF0 + r div 262144), char_of (0x80 + (r div 4096) mod 64),
            char_of (0x80 + (r div 64) mod 64), char_of (0x80 + r mod 64)])"

subsection \<open>strings\<close>

text \<open>
  \<open>strings.FieldsFunc\<close>: \<open>cur\<close> is the field being read (\<open>None\<close> when the last rune
  was a separator, Go's negative \<open>start\<close>). \<open>strings.Fields\<close> is \<open>FieldsFunc\<close> with
  \<open>unicode.IsSpace\<close>; its ASCII fast path returns the same fields.
\<close>

fun FieldsFunc_loop :: "(nat \<Rightarrow> bool) \<Rightarrow> string option \<Rightarrow> (nat \<times> string) list \<Rightarrow> string list" where
  "FieldsFunc_loop f None [] = []"
| "FieldsFunc_loop f (Some w) [] = [w]"
| "FieldsFunc_loop f cur ((r, bs) # rs) =
     (if f r
      then (case cur of None \<Rightarrow> FieldsFunc_loop f None rs
                      | Some w \<Rightarrow> w # FieldsFunc_loop f None rs)
      else (case cur of None \<Rightarrow> FieldsFunc_loop f (Some bs) rs
                      | Some w \<Rightarrow> FieldsFunc_loop f (Some (w @ bs)) rs))"

definition FieldsFunc :: "string \<Rightarrow> (nat \<Rightarrow> bool) \<Rightarrow> string list" where
  "FieldsFunc s f = FieldsFunc_loop f None (runes s)"

definition Fields :: "string \<Rightarrow> string list" where
  "Fields s = FieldsFunc s IsSpace"

text \<open>
  \<open>strings.Split\<close>. An empty separator explodes the string into its UTF-8 sequences,
  one string each (invalid bytes one by one). Otherwise the string is cut at every
  occurrence of the separator, leftmost first and not overlapping; \<open>cur\<close> is the piece
  read since the last cut.
\<close>

definition explode :: "string \<Rightarrow> string list" where
  "explode s = map snd (runes s)"

fun genSplit :: "string \<Rightarrow> string \<Rightarrow> string \<Rightarrow> string list" where
  "genSplit sep cur [] = [cur]"
| "genSplit sep cur (c # cs) =
     (if prefix sep (c # cs) then cur # genSplit sep [] (drop (length sep - 1) cs)
      else genSplit sep (cur @ [c]) cs)"

definition Split :: "string \<Rightarrow> string \<Rightarrow> string list" where
  "Split s sep = (if sep = [] then explode s else genSplit sep [] s)"

fun Join :: "string list \<Rightarrow> string \<Rightarrow> string" where
  "Join [] sep = []"
| "Join [x] sep = x"
| "Join (x # y # ys) sep = x @ sep @ Join (y # ys) sep"

section \<open>document.go\<close>

text \<open>
  A Go map is a reference. The maps live in a store, a list of association lists
  indexed by address; a \<open>Metadata\<close> field holds \<open>None\<close> for the nil map or the address of
  its map. \<open>make\<close> allocates the next address, \<open>m[k] = v\<close> updates the store in place.
\<close>

type_synonym gomap = "(string \<times> string) list"
type_synonym heap = "gomap list"

definition map_make :: "heap \<Rightarrow> heap \<times> nat" where
  "map_make h = (h @ [[]], length h)"

definition map_assign :: "heap \<Rightarrow> nat \<Rightarrow> string \<Rightarrow> string \<Rightarrow> heap" where
  "map_assign h a k v = h[a := AList.update k v (h ! a)]"

record Document =
  ID :: string
  Content :: string
  Title :: string
  Source :: string
  URL :: string
  Metadata :: "nat option"
  ChunkIndex :: goint
  ParentID :: string
  UpdatedAt :: int

text \<open>
  \<open>AsChunk\<close>: \<open>'0' + index\<close> is an \<open>int\<close> addition, \<open>rune(...)\<close> keeps its low 32 bits
  as an \<open>int32\<close>, and \<open>string(...)\<close> of a rune is its UTF-8 encoding.
\<close>

definition AsChunk :: "Document \<Rightarrow> string \<Rightarrow> goint \<Rightarrow> Document" where
  "AsChunk d parentID index =
     d\<lparr>ParentID := parentID, ChunkIndex := index,
       ID := parentID @ ''#'' @ encoderune (sint (ucast (48 + index) :: 32 word))\<rparr>"

definition IsChunk :: "Document \<Rightarrow> bool" where
  "IsChunk d = (ParentID d \<noteq> [])"

record DocumentBatch =
  Documents :: "Document list"
  Source :: string
  Cursor :: string

section \<open>chunk.go\<close>

record ChunkOptions =
  MaxTokens :: goint
  Overlap :: goint
  Separator :: string

definition DefaultChunkOptions :: ChunkOptions where
  "DefaultChunkOptions = \<lparr>MaxTokens = 512, Overlap = 50, Separator = [CHR 0x0A, CHR 0x0A]\<rparr>"

record ChunkInput =
  Documents :: "Document list"
  Options :: ChunkOptions

record ChunkOutput =
  Documents :: "Document list"
  Count :: goint

record MergeAndChunkOutput =
  Documents :: "Document list"
  Count :: goint

text \<open>
  \<open>tokenize\<close>: the loop over the paragraphs appends each paragraph's fields.
\<close>

definition tokenize :: "string \<Rightarrow> string \<Rightarrow> string list" where
  "tokenize text separator =
     (let paragraphs = Split text separator
      in fold (\<lambda>para tokens. tokens @ Fields para) paragraphs [])"

text \<open>
  \<open>copyMetadata\<close>: nil for nil, else a fresh map that receives every entry of \<open>m\<close>. The
  \<open>range\<close> over a Go map has no fixed order; the entries are visited in the order of
  the association list.
\<close>

definition copyMetadata :: "heap \<Rightarrow> nat option \<Rightarrow> heap \<times> nat option" where
  "copyMetadata h m =
     (case m of
        None \<Rightarrow> (h, None)
      | Some a \<Rightarrow>
          (let (h1, cp) = map_make h
           in (fold (\<lambda>(k, v) h'. map_assign h' cp k v) (h ! a) h1, Some cp)))"

text \<open>
  \<open>itoa\<close>: the digit loop runs only while \<open>i > 0\<close>, where Go's truncating \<open>/\<close> and \<open>%\<close>
  are \<open>div\<close> and \<open>mod\<close>; the buffer of 20 bytes is filled from its end, so it is the
  list of the bytes written so far. The negation wraps, as Go's does.
\<close>

function itoa_loop :: "int \<Rightarrow> string \<Rightarrow> string" where
  "itoa_loop i buf =
     (if 0 < i then itoa_loop (i div 10) (char_of (48 + i mod 10) # buf) else buf)"
  by pat_completeness auto
termination
  by (relation "measure (\<lambda>(i, buf). nat i)") auto

definition itoa :: "goint \<Rightarrow> string" where
  "itoa i =
     (if i = 0 then ''0''
      else
        let neg = (i <s 0);
            i1 = (if neg then - i else i);
            buf = itoa_loop (sint i1) []
        in if neg then CHR ''-'' # buf else buf)"

text \<open>
  The loop of \<open>chunkDocument\<close>, from the state at the loop head: the window start, the
  chunk counter and the chunks so far, with the store of metadata maps threaded
  through. \<open>tokens[start:end]\<close> panics unless \<open>0 \<le> start \<le> end \<le> cap(tokens)\<close>; \<open>end\<close>
  has been clipped to \<open>len(tokens)\<close> before. The result is \<open>None\<close> if the loop never
  returns.
\<close>

partial_function (option) chunk_loop ::
  "Document \<Rightarrow> ChunkOptions \<Rightarrow> string list \<Rightarrow> heap \<Rightarrow> goint \<Rightarrow> goint \<Rightarrow> Document list
    \<Rightarrow> (panic + heap \<times> Document list) option" where
  "chunk_loop doc opts tokens h start chunkIdx chunks =
     (if \<not> sint start < int (length tokens) then Some (Inr (h, chunks))
      else
        let end0 = start + MaxTokens opts;
            end1 = (if int (length tokens) < sint end0 then int (length tokens) else sint end0)
        in
        if sint start < 0 \<or> end1 < sint start then Some (Inl SliceBoundsOutOfRange)
        else
          let chunkContent =
                Join (take (nat end1 - nat (sint start)) (drop (nat (sint start)) tokens)) '' '';
              hm = copyMetadata h (Metadata doc);
              chunk = \<lparr>ID = ID doc @ ''#'' @ itoa chunkIdx,
                       Content = chunkContent,
                       Title = Title doc,
                       Source = Document.Source doc,
                       URL = URL doc,
                       Metadata = snd hm,
                       ChunkIndex = chunkIdx,
                       ParentID = ID doc,
                       UpdatedAt = UpdatedAt doc\<rparr>;
              chunks1 = chunks @ [chunk];
              chunkIdx1 = chunkIdx + 1
          in
          if int (length tokens) \<le> end1 then Some (Inr (fst hm, chunks1))
          else
            let step0 = MaxTokens opts - Overlap opts;
                step = (if step0 <s 1 then 1 else step0)
            in chunk_loop doc opts tokens (fst hm) (start + step) chunkIdx1 chunks1)"

declare chunk_loop.simps [code]

text \<open>
  Names for the parts of the loop body, as the statements below refer to them: the
  clipped window end, the tokens of the window, the chunk built from a window, and
  the clamped step.
\<close>

definition window_end :: "ChunkOptions \<Rightarrow> string list \<Rightarrow> goint \<Rightarrow> int" where
  "window_end opts tokens start =
     (let end0 = start + MaxTokens opts
      in if int (length tokens) < sint end0 then int (length tokens) else sint end0)"

definition window :: "ChunkOptions \<Rightarrow> string list \<Rightarrow> goint \<Rightarrow> string list" where
  "window opts tokens start =
     take (nat (window_end opts tokens start) - nat (sint start)) (drop (nat (sint start)) tokens)"

definition new_chunk :: "Document \<Rightarrow> string \<Rightarrow> nat option \<Rightarrow> goint \<Rightarrow> Document" where
  "new_chunk doc chunkContent md chunkIdx =
     \<lparr>ID = ID doc @ ''#'' @ itoa chunkIdx,
      Content = chunkContent,
      Title = Title doc,
      Source = Document.Source doc,
      URL = URL doc,
      Metadata = md,
      ChunkIndex = chunkIdx,
      ParentID = ID doc,
      UpdatedAt = UpdatedAt doc\<rparr>"

definition chunk_step :: "ChunkOptions \<Rightarrow> goint" where
  "chunk_step opts =
     (let step0 = MaxTokens opts - Overlap opts in if step0 <s 1 then 1 else step0)"

text \<open>
  The quantity that decreases along the loop: the distance of the window start from the
  end of the tokens, and nothing once the start has wrapped below zero, where the next
  slice expression panics.
\<close>

definition loop_measure :: "string list \<Rightarrow> goint \<Rightarrow> nat" where
  "loop_measure tokens start =
     (if sint start < 0 then 0 else Suc (nat (int (length tokens) - sint start)))"

definition chunkDocument ::
  "heap \<Rightarrow> Document \<Rightarrow> ChunkOptions \<Rightarrow> (panic + heap \<times> Document list) option" where
  "chunkDocument h doc opts =
     (let content = Content doc in
      if content = [] then Some (Inr (h, [doc]))
      else
        let tokens = tokenize content (Separator opts) in
        if int (length tokens) \<le> sint (MaxTokens opts) then Some (Inr (h, [doc]))
        else chunk_loop doc opts tokens h 0 0 [])"

text \<open>
  Go's \<open>error\<close> values: the schema mismatch of \<open>LoadDocuments\<close>, an error wrapped by
  \<open>fmt.Errorf\<close> with \<open>%w\<close>, and an error produced outside this package. A returned
  \<open>error\<close> is \<open>None\<close> for nil.
\<close>

datatype error = SchemaMismatch string string | Wrapped string error | External string

text \<open>
  The loop over the documents that \<open>ChunkActivity\<close> and \<open>MergeAndChunkActivity\<close> share:
  each document's chunks are appended to \<open>chunked\<close>; a panic of \<open>chunkDocument\<close> ends
  the activity.
\<close>

fun chunk_documents ::
  "heap \<Rightarrow> ChunkOptions \<Rightarrow> Document list \<Rightarrow> Document list
    \<Rightarrow> (panic + heap \<times> Document list) option" where
  "chunk_documents h opts [] chunked = Some (Inr (h, chunked))"
| "chunk_documents h opts (doc # docs) chunked =
     (case chunkDocument h doc opts of
        None \<Rightarrow> None
      | Some (Inl p) \<Rightarrow> Some (Inl p)
      | Some (Inr (h1, chunks)) \<Rightarrow> chunk_documents h1 opts docs (chunked @ chunks))"

definition ChunkActivity ::
  "heap \<Rightarrow> ChunkInput \<Rightarrow> (panic + heap \<times> ChunkOutput \<times> error option) option" where
  "ChunkActivity h input =
     (let opts0 = ChunkInput.Options input;
          opts = (if MaxTokens opts0 = 0 then DefaultChunkOptions else opts0)
      in case chunk_documents h opts (ChunkInput.Documents input) [] of
           None \<Rightarrow> None
         | Some (Inl p) \<Rightarrow> Some (Inl p)
         | Some (Inr (h1, chunked)) \<Rightarrow>
             Some (Inr (h1, \<lparr>ChunkOutput.Documents = chunked,
                             ChunkOutput.Count = of_nat (length chunked)\<rparr>, None)))"

section \<open>merge.go\<close>

record MergeOutput =
  Documents :: "Document list"
  Count :: goint

text \<open>
  \<open>DocumentSource\<close> is an interface. A value of it is nil (the nil interface, or a nil
  pointer to one of the structs below), or one of its implementations in this package:
  the batch and the three transformer outputs, each returning its \<open>Documents\<close> field.
  Calling \<open>ToDocuments\<close> on nil panics with a nil pointer dereference.
\<close>

datatype DocumentSource =
    NilSource
  | SourceDocumentBatch DocumentBatch
  | SourceChunkOutput ChunkOutput
  | SourceMergeAndChunkOutput MergeAndChunkOutput
  | SourceMergeOutput MergeOutput

fun ToDocuments :: "DocumentSource \<Rightarrow> panic + Document list" where
  "ToDocuments NilSource = Inl NilPointerDereference"
| "ToDocuments (SourceDocumentBatch b) = Inr (DocumentBatch.Documents b)"
| "ToDocuments (SourceChunkOutput o1) = Inr (ChunkOutput.Documents o1)"
| "ToDocuments (SourceMergeAndChunkOutput o1) = Inr (MergeAndChunkOutput.Documents o1)"
| "ToDocuments (SourceMergeOutput o1) = Inr (MergeOutput.Documents o1)"

text \<open>
  The loop \<open>for _, source := range sources { docs = append(docs, source.ToDocuments()...) }\<close>
  of \<open>MergeActivity\<close>, \<open>MergeSources\<close> and \<open>MergeAndChunkActivity\<close>, and the loop of
  \<open>MergeSources\<close> that adds up the lengths: both end at the first source whose
  \<open>ToDocuments\<close> panics.
\<close>

fun append_sources :: "DocumentSource list \<Rightarrow> Document list \<Rightarrow> panic + Document list" where
  "append_sources [] docs = Inr docs"
| "append_sources (source # sources) docs =
     (case ToDocuments source of
        Inl p \<Rightarrow> Inl p
      | Inr ds \<Rightarrow> append_sources sources (docs @ ds))"

fun total_sources :: "DocumentSource list \<Rightarrow> goint \<Rightarrow> panic + goint" where
  "total_sources [] tot = Inr tot"
| "total_sources (s # sources) tot =
     (case ToDocuments s of
        Inl p \<Rightarrow> Inl p
      | Inr ds \<Rightarrow> total_sources sources (tot + of_nat (length ds)))"

record MergeInput =
  Sources :: "DocumentSource list"

definition MergeActivity :: "MergeInput \<Rightarrow> panic + MergeOutput \<times> error option" where
  "MergeActivity input =
     (case append_sources (MergeInput.Sources input) [] of
        Inl p \<Rightarrow> Inl p
      | Inr docs \<Rightarrow>
          Inr (\<lparr>MergeOutput.Documents = docs, MergeOutput.Count = of_nat (length docs)\<rparr>, None))"

text \<open>
  \<open>MergeDocuments\<close> and \<open>MergeSources\<close>: \<open>total\<close> (\<open>tot\<close> below) is only the capacity
  that \<open>make\<close> reserves for the empty slice the second loop appends to.
\<close>

definition MergeDocuments :: "Document list list \<Rightarrow> Document list" where
  "MergeDocuments sources =
     (let total = fold (\<lambda>s total. total + of_nat (length s)) sources (0 :: goint);
          docs = []
      in fold (\<lambda>s docs. docs @ s) sources docs)"

definition MergeSources :: "DocumentSource list \<Rightarrow> panic + Document list" where
  "MergeSources sources =
     (case total_sources sources 0 of
        Inl p \<Rightarrow> Inl p
      | Inr tot \<Rightarrow> (let docs = [] in append_sources sources docs))"

record MergeAndChunkInput =
  Sources :: "DocumentSource list"
  Options :: ChunkOptions

definition MergeAndChunkActivity ::
  "heap \<Rightarrow> MergeAndChunkInput \<Rightarrow> (panic + heap \<times> MergeAndChunkOutput \<times> error option) option" where
  "MergeAndChunkActivity h input =
     (case append_sources (MergeAndChunkInput.Sources input) [] of
        Inl p \<Rightarrow> Some (Inl p)
      | Inr docs \<Rightarrow>
          (let opts0 = MergeAndChunkInput.Options input;
               opts = (if MaxTokens opts0 = 0 then DefaultChunkOptions else opts0)
           in case chunk_documents h opts docs [] of
                None \<Rightarrow> None
              | Some (Inl p) \<Rightarrow> Some (Inl p)
              | Some (Inr (h1, chunked)) \<Rightarrow>
                  Some (Inr (h1, \<lparr>MergeAndChunkOutput.Documents = chunked,
                                  MergeAndChunkOutput.Count = of_nat (length chunked)\<rparr>, None))))"

section \<open>storage.go and the merge by reference\<close>

text \<open>
  Modelled from the spec: \<open>core.DataRef\<close> is declared outside the sources at hand; the
  spec gives a reference a schema tag, a document count and a checksum, and the
  reference is otherwise an opaque handle (\<open>Handle\<close>).
\<close>

record DataRef =
  Schema :: string
  Count :: goint
  Checksum :: string
  Handle :: string

text \<open>
  The collaborators of \<open>storage.go\<close> are parameters: the constant \<open>SchemaDocuments\<close>,
  \<open>core.GetStorage\<close> (its error, or nil with the storage), the storage's \<open>LoadJSON\<close>
  and \<open>StoreJSON\<close>, \<open>json.Marshal\<close> and \<open>DataRef.WithChecksum\<close>. They act on a state
  \<open>'w\<close> of everything outside the package. Every call of a storage operation is
  recorded in a trace next to that state.
\<close>

record 'w core =
  SchemaDocuments :: string
  GetStorage :: "'w \<Rightarrow> error option \<times> 'w"
  LoadJSON :: "DataRef \<Rightarrow> 'w \<Rightarrow> (error + Document list) \<times> 'w"
  StoreJSON :: "string \<Rightarrow> Document list \<Rightarrow> 'w \<Rightarrow> (error + DataRef) \<times> 'w"
  Marshal :: "Document list \<Rightarrow> 'w \<Rightarrow> error + string"
  WithChecksum :: "DataRef \<Rightarrow> string \<Rightarrow> DataRef"

datatype event = GetStorageCall | LoadJSONCall DataRef | StoreJSONCall string "Document list"

type_synonym 'w world = "'w \<times> event list"

definition StoreDocuments ::
  "'w core \<Rightarrow> Document list \<Rightarrow> 'w world \<Rightarrow> (error + DataRef) \<times> 'w world" where
  "StoreDocuments env docs st =
     (case GetStorage env (fst st) of
        (Some err, w1) \<Rightarrow> (Inl (Wrapped ''get storage'' err), (w1, snd st @ [GetStorageCall]))
      | (None, w1) \<Rightarrow>
          (case Marshal env docs w1 of
             Inl err \<Rightarrow> (Inl (Wrapped ''marshal documents'' err), (w1, snd st @ [GetStorageCall]))
           | Inr data \<Rightarrow>
               (case StoreJSON env (SchemaDocuments env) docs w1 of
                  (Inl err, w2) \<Rightarrow>
                    (Inl err,
                     (w2, snd st @ [GetStorageCall, StoreJSONCall (SchemaDocuments env) docs]))
                | (Inr ref, w2) \<Rightarrow>
                    (Inr (WithChecksum env (ref\<lparr>DataRef.Count := of_nat (length docs)\<rparr>) data),
                     (w2, snd st @ [GetStorageCall, StoreJSONCall (SchemaDocuments env) docs])))))"

definition LoadDocuments ::
  "'w core \<Rightarrow> DataRef \<Rightarrow> 'w world \<Rightarrow> (error + Document list) \<times> 'w world" where
  "LoadDocuments env ref st =
     (if Schema ref \<noteq> SchemaDocuments env
      then (Inl (SchemaMismatch (SchemaDocuments env) (Schema ref)), st)
      else
        (case GetStorage env (fst st) of
           (Some err, w1) \<Rightarrow> (Inl (Wrapped ''get storage'' err), (w1, snd st @ [GetStorageCall]))
         | (None, w1) \<Rightarrow>
             (case LoadJSON env ref w1 of
                (Inl err, w2) \<Rightarrow>
                  (Inl (Wrapped ''load documents'' err),
                   (w2, snd st @ [GetStorageCall, LoadJSONCall ref]))
              | (Inr docs, w2) \<Rightarrow>
                  (Inr docs, (w2, snd st @ [GetStorageCall, LoadJSONCall ref])))))"

record MergeRefsInput =
  Refs :: "DataRef list"

record MergeRefsOutput =
  Ref :: DataRef
  Count :: goint

text \<open>
  The loop of \<open>MergeRefsActivity\<close> over the references: the first error of
  \<open>LoadDocuments\<close> is returned, else the documents are appended to \<open>allDocs\<close>.
\<close>

fun MergeRefs_loop ::
  "'w core \<Rightarrow> DataRef list \<Rightarrow> 'w world \<Rightarrow> Document list \<Rightarrow> (error + Document list) \<times> 'w world" where
  "MergeRefs_loop env [] st allDocs = (Inr allDocs, st)"
| "MergeRefs_loop env (ref # refs) st allDocs =
     (case LoadDocuments env ref st of
        (Inl err, st1) \<Rightarrow> (Inl err, st1)
      | (Inr docs, st1) \<Rightarrow> MergeRefs_loop env refs st1 (allDocs @ docs))"

definition zero_MergeRefsOutput :: MergeRefsOutput where
  "zero_MergeRefsOutput =
     \<lparr>Ref = \<lparr>Schema = [], DataRef.Count = 0, Checksum = [], Handle = []\<rparr>,
      MergeRefsOutput.Count = 0\<rparr>"

definition MergeRefsActivity ::
  "'w core \<Rightarrow> MergeRefsInput \<Rightarrow> 'w world \<Rightarrow> (MergeRefsOutput \<times> error option) \<times> 'w world" where
  "MergeRefsActivity env input st =
     (case MergeRefs_loop env (Refs input) st [] of
        (Inl err, st1) \<Rightarrow> ((zero_MergeRefsOutput, Some err), st1)
      | (Inr allDocs, st1) \<Rightarrow>
          (case StoreDocuments env allDocs st1 of
             (Inl err, st2) \<Rightarrow> ((zero_MergeRefsOutput, Some err), st2)
           | (Inr mergedRef, st2) \<Rightarrow>
               ((\<lparr>Ref = mergedRef, MergeRefsOutput.Count = of_nat (length allDocs)\<rparr>, None),
                st2)))"

section \<open>Notions used in the statements\<close>

text \<open>
  The state of the store while a document with metadata map \<open>a\<close> is being chunked,
  starting from the store \<open>h\<close>: the maps of \<open>h\<close> are still there unchanged, and every
  chunk so far holds a map of its own, allocated since, with the entries of the
  document's map.
\<close>

definition copies_inv :: "heap \<Rightarrow> nat \<Rightarrow> heap \<Rightarrow> Document list \<Rightarrow> bool" where
  "copies_inv h a h1 chunks \<longleftrightarrow>
     length h \<le> length h1 \<and> take (length h) h1 = h
     \<and> (\<forall>c \<in> set chunks. \<exists>a'. Metadata c = Some a' \<and> length h \<le> a' \<and> a' < length h1
                                \<and> h1 ! a' = h ! a)
     \<and> distinct (map Metadata chunks)"

text \<open>
  The calls of \<open>StoreJSON\<close> in a trace, and a small storage to run the merge by
  reference on: it loads one document named after the reference's handle, fails on the
  handle \<open>gone\<close>, and counts its stores.
\<close>

fun is_store_call :: "event \<Rightarrow> bool" where
  "is_store_call (StoreJSONCall schema docs) = True"
| "is_store_call _ = False"

definition example_core :: "nat core" where
  "example_core =
     \<lparr>SchemaDocuments = ''documents'',
      GetStorage = (\<lambda>w. (None, w)),
      LoadJSON = (\<lambda>ref w.
        if Handle ref = ''gone'' then (Inl (External ''not found''), w)
        else (Inr [\<lparr>ID = Handle ref, Content = [], Title = [], Source = [], URL = [],
                    Metadata = None, ChunkIndex = 0, ParentID = [], UpdatedAt = 0\<rparr>], w)),
      StoreJSON = (\<lambda>schema docs w.
        (Inr \<lparr>Schema = schema, DataRef.Count = 0, Checksum = [], Handle = ''merged''\<rparr>, Suc w)),
      Marshal = (\<lambda>docs w. Inr ''json''),
      WithChecksum = (\<lambda>ref data. ref\<lparr>Checksum := data\<rparr>)\<rparr>"

definition store_calls :: "'w world \<Rightarrow> event list" where
  "store_calls st = filter is_store_call (snd st)"

section \<open>Arithmetic of Go's int\<close>

lemma mod_window:
  fixes x p :: int
  assumes "0 < p"
  shows "- p \<le> x \<Longrightarrow> x < 0 \<Longrightarrow> x mod p = x + p"
    and "0 \<le> x \<Longrightarrow> x < p \<Longrightarrow> x mod p = x"
    and "p \<le> x \<Longrightarrow> x < 2 * p \<Longrightarrow> x mod p = x - p"
proof -
  show "x mod p = x + p" if "- p \<le> x" "x < 0"
  proof -
    have "x mod p = (x + p) mod p" by simp
    also have "\<dots> = x + p" using that by (intro mod_pos_pos_trivial) auto
    finally show ?thesis .
  qed
  show "x mod p = x" if "0 \<le> x" "x < p"
    using that by (intro mod_pos_pos_trivial) auto
  show "x mod p = x - p" if "p \<le> x" "x < 2 * p"
  proof -
    have "x mod p = (x - p) mod p" by simp
    also have "\<dots> = x - p" using that by (intro mod_pos_pos_trivial) auto
    finally show ?thesis .
  qed
qed

lemma signed_take_bit_64_cases:
  fixes s :: int
  assumes "- (2 ^ 64) \<le> s" "s < 2 ^ 64"
  shows "signed_take_bit 63 s = (if s < - (2 ^ 63) then s + 2 ^ 64 else if s < 2 ^ 63 then s else s - 2 ^ 64)"
proof -
  have e: "signed_take_bit 63 s = (s + 2 ^ 63) mod 2 ^ 64 - 2 ^ 63"
    by (simp add: signed_take_bit_eq_take_bit_shift take_bit_eq_mod)
  have p: "(0::int) < 2 ^ 64" by simp
  consider "s < - (2 ^ 63)" | "- (2 ^ 63) \<le> s" "s < 2 ^ 63" | "2 ^ 63 \<le> s" by linarith
  then show ?thesis
  proof cases
    case 1
    then show ?thesis using assms e mod_window(1) [OF p, of "s + 2 ^ 63"] by simp
  next
    case 2
    then show ?thesis using assms e mod_window(2) [OF p, of "s + 2 ^ 63"] by simp
  next
    case 3
    then show ?thesis using assms e mod_window(3) [OF p, of "s + 2 ^ 63"] by simp
  qed
qed

lemma sint_range_64: "- (2 ^ 63) \<le> sint (a :: goint) \<and> sint a < 2 ^ 63"
  using sint_ge [of a] sint_lt [of a] by simp

lemma sint_add_64:
  fixes a b :: goint
  shows "sint (a + b) = (let s = sint a + sint b in if s < - (2 ^ 63) then s + 2 ^ 64 else if s < 2 ^ 63 then s else s - 2 ^ 64)"
proof -
  have "sint (a + b) = signed_take_bit 63 (sint a + sint b)"
    by (simp add: sint_word_ariths)
  moreover have "- (2 ^ 64) \<le> sint a + sint b" "sint a + sint b < 2 ^ 64"
    using sint_range_64 [of a] sint_range_64 [of b] by auto
  ultimately show ?thesis by (simp add: signed_take_bit_64_cases Let_def)
qed

lemma sint_sub_64:
  fixes a b :: goint
  shows "sint (a - b) = (let s = sint a - sint b in if s < - (2 ^ 63) then s + 2 ^ 64 else if s < 2 ^ 63 then s else s - 2 ^ 64)"
proof -
  have "sint (a - b) = signed_take_bit 63 (sint a - sint b)"
    by (simp add: sint_word_ariths)
  moreover have "- (2 ^ 64) \<le> sint a - sint b" "sint a - sint b < 2 ^ 64"
    using sint_range_64 [of a] sint_range_64 [of b] by auto
  ultimately show ?thesis by (simp add: signed_take_bit_64_cases Let_def)
qed

section \<open>The loop of chunkDocument\<close>

lemma chunk_step_ge1: "1 \<le> sint (chunk_step opts)"
  by (simp add: chunk_step_def Let_def word_sless_alt)

lemma chunk_loop_unfold:
  "chunk_loop doc opts tokens h start chunkIdx chunks =
     (if \<not> sint start < int (length tokens) then Some (Inr (h, chunks))
      else if sint start < 0 \<or> window_end opts tokens start < sint start
      then Some (Inl SliceBoundsOutOfRange)
      else if int (length tokens) \<le> window_end opts tokens start
      then Some (Inr (fst (copyMetadata h (Metadata doc)),
             chunks @ [new_chunk doc (Join (window opts tokens start) '' '')
                        (snd (copyMetadata h (Metadata doc))) chunkIdx]))
      else chunk_loop doc opts tokens (fst (copyMetadata h (Metadata doc)))
             (start + chunk_step opts) (chunkIdx + 1)
             (chunks @ [new_chunk doc (Join (window opts tokens start) '' '')
                        (snd (copyMetadata h (Metadata doc))) chunkIdx]))"
  by (subst chunk_loop.simps)
     (simp add: Let_def window_end_def window_def new_chunk_def chunk_step_def)

lemma loop_measure_decreases:
  assumes "0 \<le> sint start" "sint start < int (length tokens)"
  shows "loop_measure tokens (start + chunk_step opts) < loop_measure tokens start"
proof -
  have s: "1 \<le> sint (chunk_step opts)" by (rule chunk_step_ge1)
  have r: "sint start < 2 ^ 63" "sint (chunk_step opts) < 2 ^ 63"
    using sint_range_64 by auto
  show ?thesis
    using assms s r by (auto simp: loop_measure_def sint_add_64 Let_def)
qed

lemma chunk_loop_induct [case_names iter]:
  assumes "\<And>h start idx chunks.
     (\<lbrakk>0 \<le> sint start; sint start < int (length tokens);
       sint start \<le> window_end opts tokens start;
       window_end opts tokens start < int (length tokens)\<rbrakk>
      \<Longrightarrow> P (fst (copyMetadata h (Metadata doc))) (start + chunk_step opts) (idx + 1)
            (chunks @ [new_chunk doc (Join (window opts tokens start) '' '')
                        (snd (copyMetadata h (Metadata doc))) idx]))
     \<Longrightarrow> P h start idx chunks"
  shows "P h start idx chunks"
proof (induction "loop_measure tokens start" arbitrary: h start idx chunks rule: less_induct)
  case less
  show ?case
    by (rule assms, rule less.hyps, rule loop_measure_decreases)
qed

lemma chunk_loop_returns:
  "\<exists>r. chunk_loop doc opts tokens h start idx chunks = Some r"
proof (induction h start idx chunks rule: chunk_loop_induct [where tokens = tokens and opts = opts and doc = doc])
  case (iter h start idx chunks)
  show ?case
    apply (subst chunk_loop_unfold)
    using iter by (auto)
qed

lemma chunk_loop_invariant:
  assumes run: "chunk_loop doc opts tokens h start idx chunks = Some (Inr (h', cs))"
    and init: "I h idx chunks"
    and step: "\<And>h idx chunks content.
       I h idx chunks \<Longrightarrow>
       I (fst (copyMetadata h (Metadata doc))) (idx + 1)
         (chunks @ [new_chunk doc content (snd (copyMetadata h (Metadata doc))) idx])"
  shows "\<exists>idx'. I h' idx' cs"
  using run init
proof (induction h start idx chunks
    rule: chunk_loop_induct [where tokens = tokens and opts = opts and doc = doc])
  case (iter h start idx chunks)
  let ?h1 = "fst (copyMetadata h (Metadata doc))"
  let ?c = "new_chunk doc (Join (window opts tokens start) '' '')
              (snd (copyMetadata h (Metadata doc))) idx"
  have next_I: "I ?h1 (idx + 1) (chunks @ [?c])"
    using iter.prems(2) by (rule step)
  from iter.prems(1) have
    "(\<not> sint start < int (length tokens) \<and> h' = h \<and> cs = chunks)
     \<or> (int (length tokens) \<le> window_end opts tokens start \<and> h' = ?h1 \<and> cs = chunks @ [?c])
     \<or> (0 \<le> sint start \<and> sint start < int (length tokens)
         \<and> sint start \<le> window_end opts tokens start
         \<and> window_end opts tokens start < int (length tokens)
         \<and> chunk_loop doc opts tokens ?h1 (start + chunk_step opts) (idx + 1) (chunks @ [?c])
             = Some (Inr (h', cs)))"
    by (subst (asm) chunk_loop_unfold) (auto split: if_splits)
  then show ?case
    using iter.prems(2) next_I iter.IH by blast
qed

section \<open>Termination\<close>

text \<open>
  C6. For every document and all chunk options, overlap at or above maxTokens included,
  \<open>chunkDocument\<close> returns (a result or a panic, never \<open>None\<close>), and so does its loop
  from every state: the step added to the window start is at least 1.
\<close>

theorem chunkDocument_terminates:
  "(\<exists>r. chunkDocument h doc opts = Some r)
   \<and> (\<exists>r. chunk_loop doc opts tokens h start idx chunks = Some r)
   \<and> 1 \<le> sint (chunk_step opts)"
  by (simp add: chunkDocument_def Let_def chunk_loop_returns chunk_step_ge1)

section \<open>Documents that fit in one chunk\<close>

text \<open>
  C2. A document whose content is empty, or tokenizes to at most maxTokens tokens, comes
  back as the one-element list of the document itself, every field as it was (so the
  content is the same, no chunk index or parent is set, and an empty parentID stays
  empty), and no metadata map is allocated or written.
\<close>

theorem chunkDocument_short_unchanged:
  assumes "Content doc = []
           \<or> int (length (tokenize (Content doc) (Separator opts))) \<le> sint (MaxTokens opts)"
  shows "chunkDocument h doc opts = Some (Inr (h, [doc]))"
  using assms by (auto simp: chunkDocument_def Let_def)

theorem chunkDocument_short_unchanged_witness:
  "chunkDocument []
     \<lparr>ID = ''short-doc'', Content = ''a short document'', Title = [], Source = ''test'',
      URL = [], Metadata = None, ChunkIndex = 0, ParentID = [], UpdatedAt = 0\<rparr>
     \<lparr>MaxTokens = 100, Overlap = 10, Separator = []\<rparr>
   = Some (Inr ([],
       [\<lparr>ID = ''short-doc'', Content = ''a short document'', Title = [], Source = ''test'',
         URL = [], Metadata = None, ChunkIndex = 0, ParentID = [], UpdatedAt = 0\<rparr>]))"
proof -
  have "int (length (tokenize ''a short document'' [])) \<le> sint (100 :: goint)"
    by code_simp
  then show ?thesis
    by (intro chunkDocument_short_unchanged) simp
qed

section \<open>Merging\<close>

lemma fold_append_concat:
  "fold (\<lambda>s docs. docs @ f s) xs acc = acc @ concat (map f xs)"
  by (induction xs arbitrary: acc) simp_all

lemma sources_loops:
  assumes "\<forall>s \<in> set sources. s \<noteq> NilSource"
  shows "\<exists>dss. map ToDocuments sources = map Inr dss
           \<and> (\<forall>docs. append_sources sources docs = Inr (docs @ concat dss))
           \<and> (\<forall>tot. \<exists>tot'. total_sources sources tot = Inr tot')"
  using assms
proof (induction sources)
  case Nil
  then show ?case by simp
next
  case (Cons s sources)
  obtain ds where ds: "ToDocuments s = Inr ds"
    using Cons.prems by (cases s) auto
  obtain dss where dss: "map ToDocuments sources = map Inr dss"
      "\<forall>docs. append_sources sources docs = Inr (docs @ concat dss)"
      "\<forall>tot. \<exists>tot'. total_sources sources tot = Inr tot'"
    using Cons.IH Cons.prems by auto
  have "map ToDocuments (s # sources) = map Inr (ds # dss)"
    using ds dss(1) by simp
  moreover have "\<forall>docs. append_sources (s # sources) docs = Inr (docs @ concat (ds # dss))"
    using ds dss(2) by simp
  moreover have "\<forall>tot. \<exists>tot'. total_sources (s # sources) tot = Inr tot'"
    using ds dss(3) by simp
  ultimately show ?case by blast
qed

text \<open>
  C8, as amended. Merging document lists, or document sources none of which is nil,
  returns their concatenation in the order given: nothing is dropped, repeated or
  reordered, and the length is the sum of the lengths; \<open>dss\<close> are the lists the sources
  return. The functions return new lists and take no store, so no input changes.
\<close>

theorem merge_is_concat:
  assumes "\<forall>s \<in> set sources. s \<noteq> NilSource"
  shows "MergeDocuments docss = concat docss
     \<and> length (MergeDocuments docss) = sum_list (map length docss)
     \<and> (\<exists>dss. map ToDocuments sources = map Inr dss
           \<and> MergeSources sources = Inr (concat dss)
           \<and> length (concat dss) = sum_list (map length dss)
           \<and> MergeActivity \<lparr>MergeInput.Sources = sources\<rparr>
               = Inr (\<lparr>MergeOutput.Documents = concat dss,
                       MergeOutput.Count = of_nat (length (concat dss))\<rparr>, None))"
proof -
  have d: "MergeDocuments docss = concat docss"
    using fold_append_concat [of "\<lambda>s. s" docss "[]"]
    by (simp add: MergeDocuments_def Let_def)
  obtain dss where dss: "map ToDocuments sources = map Inr dss"
      "\<forall>docs. append_sources sources docs = Inr (docs @ concat dss)"
      "\<forall>tot. \<exists>tot'. total_sources sources tot = Inr tot'"
    using sources_loops [OF assms] by blast
  obtain tot where "total_sources sources 0 = Inr tot"
    using dss(3) by blast
  then have m: "MergeSources sources = Inr (concat dss)"
    using dss(2) by (simp add: MergeSources_def)
  have a: "MergeActivity \<lparr>MergeInput.Sources = sources\<rparr>
      = Inr (\<lparr>MergeOutput.Documents = concat dss,
              MergeOutput.Count = of_nat (length (concat dss))\<rparr>, None)"
    using dss(2) by (simp add: MergeActivity_def)
  show ?thesis
    using d dss(1) m a by (auto simp: length_concat comp_def)
qed

theorem merge_is_concat_witness:
  "MergeDocuments
     [[\<lparr>ID = ''1'', Content = [], Title = [], Source = ''source1'', URL = [],
        Metadata = None, ChunkIndex = 0, ParentID = [], UpdatedAt = 0\<rparr>,
       \<lparr>ID = ''2'', Content = [], Title = [], Source = ''source1'', URL = [],
        Metadata = None, ChunkIndex = 0, ParentID = [], UpdatedAt = 0\<rparr>],
      [\<lparr>ID = ''3'', Content = [], Title = [], Source = ''source2'', URL = [],
        Metadata = None, ChunkIndex = 0, ParentID = [], UpdatedAt = 0\<rparr>]]
   = [\<lparr>ID = ''1'', Content = [], Title = [], Source = ''source1'', URL = [],
       Metadata = None, ChunkIndex = 0, ParentID = [], UpdatedAt = 0\<rparr>,
      \<lparr>ID = ''2'', Content = [], Title = [], Source = ''source1'', URL = [],
       Metadata = None, ChunkIndex = 0, ParentID = [], UpdatedAt = 0\<rparr>,
      \<lparr>ID = ''3'', Content = [], Title = [], Source = ''source2'', URL = [],
       Metadata = None, ChunkIndex = 0, ParentID = [], UpdatedAt = 0\<rparr>]
   \<and> MergeSources
       [SourceDocumentBatch
          \<lparr>DocumentBatch.Documents =
             [\<lparr>ID = ''1'', Content = [], Title = [], Source = ''source1'', URL = [],
               Metadata = None, ChunkIndex = 0, ParentID = [], UpdatedAt = 0\<rparr>,
              \<lparr>ID = ''2'', Content = [], Title = [], Source = ''source1'', URL = [],
               Metadata = None, ChunkIndex = 0, ParentID = [], UpdatedAt = 0\<rparr>],
           Source = ''source1'', Cursor = []\<rparr>,
        SourceMergeOutput
          \<lparr>MergeOutput.Documents =
             [\<lparr>ID = ''3'', Content = [], Title = [], Source = ''source2'', URL = [],
               Metadata = None, ChunkIndex = 0, ParentID = [], UpdatedAt = 0\<rparr>],
           MergeOutput.Count = 1\<rparr>]
     = Inr [\<lparr>ID = ''1'', Content = [], Title = [], Source = ''source1'', URL = [],
             Metadata = None, ChunkIndex = 0, ParentID = [], UpdatedAt = 0\<rparr>,
            \<lparr>ID = ''2'', Content = [], Title = [], Source = ''source1'', URL = [],
             Metadata = None, ChunkIndex = 0, ParentID = [], UpdatedAt = 0\<rparr>,
            \<lparr>ID = ''3'', Content = [], Title = [], Source = ''source2'', URL = [],
             Metadata = None, ChunkIndex = 0, ParentID = [], UpdatedAt = 0\<rparr>]"
proof -
  let ?d1 = "\<lparr>ID = ''1'', Content = [], Title = [], Source = ''source1'', URL = [],
        Metadata = None, ChunkIndex = 0, ParentID = [], UpdatedAt = 0\<rparr>"
  let ?d2 = "\<lparr>ID = ''2'', Content = [], Title = [], Source = ''source1'', URL = [],
        Metadata = None, ChunkIndex = 0, ParentID = [], UpdatedAt = 0\<rparr>"
  let ?d3 = "\<lparr>ID = ''3'', Content = [], Title = [], Source = ''source2'', URL = [],
        Metadata = None, ChunkIndex = 0, ParentID = [], UpdatedAt = 0\<rparr>"
  let ?sources = "[SourceDocumentBatch
          \<lparr>DocumentBatch.Documents = [?d1, ?d2], Source = ''source1'', Cursor = []\<rparr>,
        SourceMergeOutput \<lparr>MergeOutput.Documents = [?d3], MergeOutput.Count = 1\<rparr>]"
  have nn: "\<forall>s \<in> set ?sources. s \<noteq> NilSource" by simp
  have t: "map ToDocuments ?sources = map Inr [[?d1, ?d2], [?d3]]" by simp
  from merge_is_concat [OF nn, of "[[?d1, ?d2], [?d3]]"]
  obtain dss where d: "MergeDocuments [[?d1, ?d2], [?d3]] = concat [[?d1, ?d2], [?d3]]"
    and e: "map ToDocuments ?sources = map Inr dss"
    and m: "MergeSources ?sources = Inr (concat dss)"
    by blast
  have "map Inr dss = (map Inr [[?d1, ?d2], [?d3]] :: (panic + Document list) list)"
    using e t by simp
  then have "dss = [[?d1, ?d2], [?d3]]"
    by (simp only: inj_map_eq_map [OF inj_Inr])
  then show ?thesis using d m by simp
qed

text \<open>
  C8 as stated, for every sequence of document sources, fails: a nil source among the
  sources makes \<open>MergeSources\<close> and \<open>MergeActivity\<close> panic at \<open>ToDocuments\<close>, and no
  list is returned.
\<close>

theorem merge_nil_source_counterexample:
  "MergeSources
     [SourceDocumentBatch
        \<lparr>DocumentBatch.Documents =
           [\<lparr>ID = ''1'', Content = [], Title = [], Source = ''source1'', URL = [],
             Metadata = None, ChunkIndex = 0, ParentID = [], UpdatedAt = 0\<rparr>],
         Source = ''source1'', Cursor = []\<rparr>,
      NilSource]
   = Inl NilPointerDereference
   \<and> MergeActivity
       \<lparr>MergeInput.Sources =
          [SourceDocumentBatch
             \<lparr>DocumentBatch.Documents =
                [\<lparr>ID = ''1'', Content = [], Title = [], Source = ''source1'', URL = [],
                  Metadata = None, ChunkIndex = 0, ParentID = [], UpdatedAt = 0\<rparr>],
              Source = ''source1'', Cursor = []\<rparr>,
           NilSource]\<rparr>
     = Inl NilPointerDereference"
  by (simp add: MergeSources_def MergeActivity_def)

section \<open>The number of chunks\<close>

lemma Join_suffix_last: "xs \<noteq> [] \<Longrightarrow> suffix (last xs) (Join xs sep)"
  by (induction xs sep rule: Join.induct) (auto simp: suffix_append)

lemma chunk_step_max:
  assumes "1 \<le> sint (MaxTokens opts)" "0 \<le> sint (Overlap opts)"
  shows "sint (chunk_step opts) = max 1 (sint (MaxTokens opts) - sint (Overlap opts))"
proof -
  have "sint (MaxTokens opts - Overlap opts) = sint (MaxTokens opts) - sint (Overlap opts)"
    using assms sint_range_64 [of "MaxTokens opts"] sint_range_64 [of "Overlap opts"]
    by (simp add: sint_sub_64 Let_def)
  then show ?thesis
    by (simp add: chunk_step_def Let_def word_sless_alt max_def)
qed

lemma window_end_min:
  assumes "0 \<le> sint start" "sint start < int (length tokens)" "int (length tokens) < 2 ^ 62"
    and "sint (MaxTokens opts) < int (length tokens)" "0 \<le> sint (MaxTokens opts)"
  shows "window_end opts tokens start = min (int (length tokens)) (sint start + sint (MaxTokens opts))"
proof -
  have "sint (start + MaxTokens opts) = sint start + sint (MaxTokens opts)"
    using assms by (simp add: sint_add_64 Let_def)
  then show ?thesis
    by (simp add: window_end_def Let_def min_def)
qed


lemma ceil_nonpos:
  fixes d st :: int
  assumes "d \<le> 0" "1 \<le> st"
  shows "nat \<lceil>real_of_int d / real_of_int st\<rceil> = 0"
proof -
  have "real_of_int d / real_of_int st \<le> 0"
    using assms by (simp add: divide_nonpos_pos)
  then show ?thesis by simp
qed

lemma ceil_step:
  fixes d st :: int
  assumes "0 < d" "1 \<le> st"
  shows "nat \<lceil>real_of_int (d - st) / real_of_int st\<rceil> + 1 = nat \<lceil>real_of_int d / real_of_int st\<rceil>"
proof -
  have "real_of_int (d - st) / real_of_int st = real_of_int d / real_of_int st - 1"
    using assms by (simp add: field_simps)
  then have e: "\<lceil>real_of_int (d - st) / real_of_int st\<rceil> = \<lceil>real_of_int d / real_of_int st\<rceil> - 1"
    by simp
  define c where "c = \<lceil>real_of_int d / real_of_int st\<rceil>"
  have "0 < real_of_int d / real_of_int st"
    using assms by simp
  then have "0 < c"
    by (simp add: c_def)
  moreover have "\<lceil>real_of_int (d - st) / real_of_int st\<rceil> = c - 1"
    using e by (simp add: c_def)
  ultimately show ?thesis
    unfolding c_def [symmetric] by simp
qed

lemma chunk_loop_count:
  assumes M1: "1 \<le> sint (MaxTokens opts)" and O0: "0 \<le> sint (Overlap opts)"
    and N62: "int (length tokens) < 2 ^ 62"
    and MN: "sint (MaxTokens opts) < int (length tokens)"
  shows "0 \<le> sint start \<Longrightarrow> sint start < int (length tokens) \<Longrightarrow>
     \<exists>h' cs. chunk_loop doc opts tokens h start idx chunks = Some (Inr (h', cs))
       \<and> length cs = length chunks
            + nat \<lceil>real_of_int (int (length tokens) - sint (MaxTokens opts) - sint start)
                    / real_of_int (max 1 (sint (MaxTokens opts) - sint (Overlap opts)))\<rceil> + 1
       \<and> cs \<noteq> [] \<and> suffix (last tokens) (Content (last cs))"
proof (induction h start idx chunks
    rule: chunk_loop_induct [where tokens = tokens and opts = opts and doc = doc])
  case (iter h start idx chunks)
  let ?N = "int (length tokens)"
  let ?M = "sint (MaxTokens opts)"
  let ?st = "max 1 (sint (MaxTokens opts) - sint (Overlap opts))"
  let ?h1 = "fst (copyMetadata h (Metadata doc))"
  let ?c = "new_chunk doc (Join (window opts tokens start) '' '')
              (snd (copyMetadata h (Metadata doc))) idx"
  have s0: "0 \<le> sint start" and sN: "sint start < ?N" using iter.prems by auto
  have M0: "0 \<le> ?M" using M1 by simp
  have we: "window_end opts tokens start = min ?N (sint start + ?M)"
    using s0 sN N62 MN M0 by (rule window_end_min)
  have st: "sint (chunk_step opts) = ?st" using M1 O0 by (rule chunk_step_max)
  have st_bounds: "1 \<le> ?st" "?st \<le> ?M" using M1 O0 by auto
  show ?case
  proof (cases "?N \<le> sint start + ?M")
    case True
    then have end_N: "window_end opts tokens start = ?N" using we by simp
    have run: "chunk_loop doc opts tokens h start idx chunks = Some (Inr (?h1, chunks @ [?c]))"
      using s0 sN end_N by (subst chunk_loop_unfold) simp
    have w: "window opts tokens start = drop (nat (sint start)) tokens"
      using end_N by (simp add: window_def)
    have ne: "drop (nat (sint start)) tokens \<noteq> []" using s0 sN by simp
    have "last (drop (nat (sint start)) tokens) = last tokens"
      using s0 sN by (intro last_drop) simp
    then have "suffix (last tokens) (Content ?c)"
      using Join_suffix_last [OF ne, of "'' ''"] w by (simp add: new_chunk_def)
    moreover have "nat \<lceil>real_of_int (?N - ?M - sint start) / real_of_int ?st\<rceil> = 0"
      using True st_bounds(1) by (intro ceil_nonpos) auto
    ultimately show ?thesis using run by simp
  next
    case False
    then have end_lt: "window_end opts tokens start = sint start + ?M" using we by simp
    have p: "(2::int) ^ 63 = 2 * 2 ^ 62" by simp
    have "sint start + ?st < 2 ^ 63"
      using sN N62 st_bounds MN unfolding p by linarith
    moreover have "- (2 ^ 63) \<le> sint start + ?st"
      using s0 st_bounds zero_le_power [of "2::int" 63] by linarith
    ultimately have next_start: "sint (start + chunk_step opts) = sint start + ?st"
      using st by (simp add: sint_add_64 Let_def)
    have run: "chunk_loop doc opts tokens h start idx chunks
        = chunk_loop doc opts tokens ?h1 (start + chunk_step opts) (idx + 1) (chunks @ [?c])"
      using s0 sN end_lt False M1 by (subst chunk_loop_unfold) simp
    have "\<exists>h' cs. chunk_loop doc opts tokens ?h1 (start + chunk_step opts) (idx + 1) (chunks @ [?c])
            = Some (Inr (h', cs))
       \<and> length cs = length (chunks @ [?c])
            + nat \<lceil>real_of_int (?N - ?M - sint (start + chunk_step opts)) / real_of_int ?st\<rceil> + 1
       \<and> cs \<noteq> [] \<and> suffix (last tokens) (Content (last cs))"
      using s0 sN end_lt False M1 next_start st_bounds by (intro iter.IH) auto
    then obtain h' cs where
      r: "chunk_loop doc opts tokens ?h1 (start + chunk_step opts) (idx + 1) (chunks @ [?c])
            = Some (Inr (h', cs))"
      and l: "length cs = length (chunks @ [?c])
            + nat \<lceil>real_of_int (?N - ?M - sint (start + chunk_step opts)) / real_of_int ?st\<rceil> + 1"
      and rest: "cs \<noteq> []" "suffix (last tokens) (Content (last cs))"
      by blast
    have "nat \<lceil>real_of_int (?N - ?M - sint start - ?st) / real_of_int ?st\<rceil> + 1
          = nat \<lceil>real_of_int (?N - ?M - sint start) / real_of_int ?st\<rceil>"
      using False st_bounds(1) by (intro ceil_step) auto
    then have "length cs = length chunks
        + nat \<lceil>real_of_int (?N - ?M - sint start) / real_of_int ?st\<rceil> + 1"
      using l next_start by (simp add: algebra_simps)
    then show ?thesis using run r rest by simp
  qed
qed

lemma tokenize_Nil: "tokenize [] sep = []"
  by (simp add: tokenize_def Split_def explode_def Fields_def FieldsFunc_def)

text \<open>
  C1, as amended. For chunk options with maxTokens at least 1 and overlap at least 0, and
  a document whose content tokenizes to N tokens with N above maxTokens (N below
  \<open>2 ^ 62\<close>, as every Go slice is), \<open>chunkDocument\<close> returns exactly
  \<open>ceil ((N - maxTokens) / step) + 1\<close> chunks, \<open>step = max 1 (maxTokens - overlap)\<close>, and
  the content of the last chunk ends with the last token.
\<close>

theorem chunkDocument_chunk_count:
  assumes "1 \<le> sint (MaxTokens opts)" and "0 \<le> sint (Overlap opts)"
    and "sint (MaxTokens opts) < int (length (tokenize (Content doc) (Separator opts)))"
    and "int (length (tokenize (Content doc) (Separator opts))) < 2 ^ 62"
  shows "\<exists>h' chunks. chunkDocument h doc opts = Some (Inr (h', chunks))
     \<and> int (length chunks)
         = \<lceil>real_of_int (int (length (tokenize (Content doc) (Separator opts))) - sint (MaxTokens opts))
             / real_of_int (max 1 (sint (MaxTokens opts) - sint (Overlap opts)))\<rceil> + 1
     \<and> suffix (last (tokenize (Content doc) (Separator opts))) (Content (last chunks))"
proof -
  let ?tokens = "tokenize (Content doc) (Separator opts)"
  let ?x = "real_of_int (int (length ?tokens) - sint (MaxTokens opts))
             / real_of_int (max 1 (sint (MaxTokens opts) - sint (Overlap opts)))"
  have ne: "Content doc \<noteq> []"
    using assms(1,3) tokenize_Nil [of "Separator opts"] by auto
  have cd: "chunkDocument h doc opts = chunk_loop doc opts ?tokens h 0 0 []"
    using ne assms(3) by (simp add: chunkDocument_def Let_def)
  have "\<exists>h' cs. chunk_loop doc opts ?tokens h 0 0 [] = Some (Inr (h', cs))
       \<and> length cs = length ([] :: Document list)
            + nat \<lceil>real_of_int (int (length ?tokens) - sint (MaxTokens opts) - sint (0 :: goint))
                    / real_of_int (max 1 (sint (MaxTokens opts) - sint (Overlap opts)))\<rceil> + 1
       \<and> cs \<noteq> [] \<and> suffix (last ?tokens) (Content (last cs))"
    using assms by (intro chunk_loop_count) auto
  then obtain h' cs where r: "chunk_loop doc opts ?tokens h 0 0 [] = Some (Inr (h', cs))"
    and l: "length cs = nat \<lceil>?x\<rceil> + 1"
    and s: "suffix (last ?tokens) (Content (last cs))"
    by auto
  have a: "0 \<le> int (length ?tokens) - sint (MaxTokens opts)"
    using assms(3) by linarith
  have b: "0 \<le> max 1 (sint (MaxTokens opts) - sint (Overlap opts))"
    by linarith
  have "0 \<le> ?x"
    by (rule divide_nonneg_nonneg) (use a b in \<open>simp_all only: of_int_0_le_iff\<close>)
  then have "0 \<le> \<lceil>?x\<rceil>" by simp
  then have "int (length cs) = \<lceil>?x\<rceil> + 1" using l by simp
  then show ?thesis using cd r s by simp
qed

theorem chunkDocument_chunk_count_witness:
  "\<exists>h' chunks.
     chunkDocument []
       \<lparr>ID = ''doc'', Content = ''a b c d e'', Title = [], Source = ''test'', URL = [],
        Metadata = None, ChunkIndex = 0, ParentID = [], UpdatedAt = 0\<rparr>
       \<lparr>MaxTokens = 2, Overlap = 1, Separator = ''|''\<rparr> = Some (Inr (h', chunks))
     \<and> int (length chunks) = 4
     \<and> suffix ''e'' (Content (last chunks))"
proof -
  let ?doc = "\<lparr>ID = ''doc'', Content = ''a b c d e'', Title = [], Source = ''test'', URL = [],
        Metadata = None, ChunkIndex = 0, ParentID = [], UpdatedAt = 0\<rparr>"
  let ?opts = "\<lparr>MaxTokens = 2, Overlap = 1, Separator = ''|''\<rparr>"
  have t: "tokenize (Content ?doc) (Separator ?opts) = [''a'', ''b'', ''c'', ''d'', ''e'']"
    by code_simp
  have "1 \<le> sint (MaxTokens ?opts)" "0 \<le> sint (Overlap ?opts)"
    "sint (MaxTokens ?opts) < int (length (tokenize (Content ?doc) (Separator ?opts)))"
    "int (length (tokenize (Content ?doc) (Separator ?opts))) < 2 ^ 62"
    unfolding t by simp_all
  from chunkDocument_chunk_count [OF this, of "[]"] show ?thesis
    unfolding t by simp
qed

text \<open>
  C1 as stated, for every N above maxTokens, fails. With overlap \<open>- 3\<close> and maxTokens 2
  the step is 5: four tokens give the single chunk \<open>a b\<close>, where the formula asks for 2
  chunks and the last token d is in no chunk. With maxTokens 0 passed to
  \<open>chunkDocument\<close> itself every window is empty: four tokens give four chunks of empty
  content, where the formula asks for 5.
\<close>

theorem chunk_count_counterexample:
  "tokenize ''a b c d'' ''|'' = [''a'', ''b'', ''c'', ''d'']
   \<and> chunkDocument []
       \<lparr>ID = ''doc'', Content = ''a b c d'', Title = [], Source = ''test'', URL = [],
        Metadata = None, ChunkIndex = 0, ParentID = [], UpdatedAt = 0\<rparr>
       \<lparr>MaxTokens = 2, Overlap = - 3, Separator = ''|''\<rparr>
     = Some (Inr ([],
        [\<lparr>ID = ''doc#0'', Content = ''a b'', Title = [], Source = ''test'', URL = [],
          Metadata = None, ChunkIndex = 0, ParentID = ''doc'', UpdatedAt = 0\<rparr>]))
   \<and> (1 :: int) \<noteq> \<lceil>real_of_int (4 - sint (2 :: goint))
                      / real_of_int (max 1 (sint (2 :: goint) - sint (- 3 :: goint)))\<rceil> + 1
   \<and> \<not> suffix ''d'' ''a b''
   \<and> chunkDocument []
       \<lparr>ID = ''doc'', Content = ''a b c d'', Title = [], Source = ''test'', URL = [],
        Metadata = None, ChunkIndex = 0, ParentID = [], UpdatedAt = 0\<rparr>
       \<lparr>MaxTokens = 0, Overlap = 0, Separator = ''|''\<rparr>
     = Some (Inr ([],
        [\<lparr>ID = ''doc#0'', Content = [], Title = [], Source = ''test'', URL = [],
          Metadata = None, ChunkIndex = 0, ParentID = ''doc'', UpdatedAt = 0\<rparr>,
         \<lparr>ID = ''doc#1'', Content = [], Title = [], Source = ''test'', URL = [],
          Metadata = None, ChunkIndex = 1, ParentID = ''doc'', UpdatedAt = 0\<rparr>,
         \<lparr>ID = ''doc#2'', Content = [], Title = [], Source = ''test'', URL = [],
          Metadata = None, ChunkIndex = 2, ParentID = ''doc'', UpdatedAt = 0\<rparr>,
         \<lparr>ID = ''doc#3'', Content = [], Title = [], Source = ''test'', URL = [],
          Metadata = None, ChunkIndex = 3, ParentID = ''doc'', UpdatedAt = 0\<rparr>]))
   \<and> (4 :: int) \<noteq> \<lceil>real_of_int (4 - sint (0 :: goint))
                      / real_of_int (max 1 (sint (0 :: goint) - sint (0 :: goint)))\<rceil> + 1
   \<and> \<not> suffix ''d'' []"
proof -
  have "tokenize ''a b c d'' ''|'' = [''a'', ''b'', ''c'', ''d'']"
    by code_simp
  moreover have "chunkDocument []
       \<lparr>ID = ''doc'', Content = ''a b c d'', Title = [], Source = ''test'', URL = [],
        Metadata = None, ChunkIndex = 0, ParentID = [], UpdatedAt = 0\<rparr>
       \<lparr>MaxTokens = 2, Overlap = - 3, Separator = ''|''\<rparr>
     = Some (Inr ([],
        [\<lparr>ID = ''doc#0'', Content = ''a b'', Title = [], Source = ''test'', URL = [],
          Metadata = None, ChunkIndex = 0, ParentID = ''doc'', UpdatedAt = 0\<rparr>]))"
    by code_simp
  moreover have "chunkDocument []
       \<lparr>ID = ''doc'', Content = ''a b c d'', Title = [], Source = ''test'', URL = [],
        Metadata = None, ChunkIndex = 0, ParentID = [], UpdatedAt = 0\<rparr>
       \<lparr>MaxTokens = 0, Overlap = 0, Separator = ''|''\<rparr>
     = Some (Inr ([],
        [\<lparr>ID = ''doc#0'', Content = [], Title = [], Source = ''test'', URL = [],
          Metadata = None, ChunkIndex = 0, ParentID = ''doc'', UpdatedAt = 0\<rparr>,
         \<lparr>ID = ''doc#1'', Content = [], Title = [], Source = ''test'', URL = [],
          Metadata = None, ChunkIndex = 1, ParentID = ''doc'', UpdatedAt = 0\<rparr>,
         \<lparr>ID = ''doc#2'', Content = [], Title = [], Source = ''test'', URL = [],
          Metadata = None, ChunkIndex = 2, ParentID = ''doc'', UpdatedAt = 0\<rparr>,
         \<lparr>ID = ''doc#3'', Content = [], Title = [], Source = ''test'', URL = [],
          Metadata = None, ChunkIndex = 3, ParentID = ''doc'', UpdatedAt = 0\<rparr>]))"
    by code_simp
  moreover have "(1 :: int) \<noteq> \<lceil>real_of_int (4 - sint (2 :: goint))
                      / real_of_int (max 1 (sint (2 :: goint) - sint (- 3 :: goint)))\<rceil> + 1"
    by simp
  moreover have "(4 :: int) \<noteq> \<lceil>real_of_int (4 - sint (0 :: goint))
                      / real_of_int (max 1 (sint (0 :: goint) - sint (0 :: goint)))\<rceil> + 1"
    by simp
  moreover have "\<not> suffix ''d'' ''a b''" "\<not> suffix ''d'' []"
    by (simp_all add: suffix_def)
  ultimately show ?thesis by blast
qed

section \<open>Metadata of the chunks\<close>

lemma fold_update_distinct:
  "distinct (map fst m) \<Longrightarrow> fst ` set m \<inter> fst ` set acc = {} \<Longrightarrow>
   fold (\<lambda>(k, v) cp. AList.update k v cp) m acc = acc @ m"
proof (induction m arbitrary: acc)
  case Nil
  then show ?case by simp
next
  case (Cons kv m)
  obtain k v where kv: "kv = (k, v)" by (cases kv)
  have "k \<notin> fst ` set acc" using Cons.prems(2) kv by auto
  then have u: "AList.update k v acc = acc @ [(k, v)]"
    by (induction acc) auto
  have "fold (\<lambda>(k, v) cp. AList.update k v cp) m (acc @ [(k, v)]) = (acc @ [(k, v)]) @ m"
    using Cons.prems kv by (intro Cons.IH) (auto simp: image_iff)
  then show ?case using u kv by simp
qed

lemma fold_map_assign:
  "cp < length hh \<Longrightarrow>
   fold (\<lambda>(k, v) h'. map_assign h' cp k v) m hh
     = hh[cp := fold (\<lambda>(k, v) c. AList.update k v c) m (hh ! cp)]"
proof (induction m arbitrary: hh)
  case Nil
  then show ?case by simp
next
  case (Cons kv m)
  obtain k v where kv: "kv = (k, v)" by (cases kv)
  have "fold (\<lambda>(k, v) h'. map_assign h' cp k v) m (map_assign hh cp k v)
      = (map_assign hh cp k v)[cp := fold (\<lambda>(k, v) c. AList.update k v c) m
                                      (map_assign hh cp k v ! cp)]"
    using Cons.prems by (intro Cons.IH) (simp add: map_assign_def)
  then show ?case using Cons.prems kv
    by (simp add: map_assign_def)
qed

lemma copyMetadata_Some:
  assumes "distinct (map fst (h ! a))"
  shows "copyMetadata h (Some a) = (h @ [h ! a], Some (length h))"
  using assms
  by (simp add: copyMetadata_def map_make_def fold_map_assign fold_update_distinct)

lemma copyMetadata_None: "copyMetadata h None = (h, None)"
  by (simp add: copyMetadata_def)



lemma copies_inv_step:
  assumes "copies_inv h a h1 chunks" "a < length h" "distinct (map fst (h ! a))"
  shows "copies_inv h a (fst (copyMetadata h1 (Some a)))
           (chunks @ [new_chunk doc content (snd (copyMetadata h1 (Some a))) idx])"
proof -
  have len: "length h \<le> length h1" and tk: "take (length h) h1 = h"
    using assms(1) by (auto simp: copies_inv_def)
  have "h1 ! a = take (length h) h1 ! a" using assms(2) by simp
  then have same: "h1 ! a = h ! a" using tk by simp
  then have cm: "copyMetadata h1 (Some a) = (h1 @ [h ! a], Some (length h1))"
    using assms(3) copyMetadata_Some [of h1 a] by simp
  have old: "\<forall>c \<in> set chunks. \<exists>a'. Metadata c = Some a' \<and> length h \<le> a' \<and> a' < length h1
                                \<and> h1 ! a' = h ! a"
    using assms(1) by (simp add: copies_inv_def)
  then have fresh: "Some (length h1) \<notin> Metadata ` set chunks" by force
  have d: "distinct (map Metadata chunks)" using assms(1) by (simp add: copies_inv_def)
  show ?thesis
    unfolding copies_inv_def cm fst_conv snd_conv
  proof (intro conjI)
    show "length h \<le> length (h1 @ [h ! a])" using len by simp
    show "take (length h) (h1 @ [h ! a]) = h" using len tk by simp
    show "\<forall>c\<in>set (chunks @ [new_chunk doc content (Some (length h1)) idx]).
       \<exists>a'. Metadata c = Some a' \<and> length h \<le> a' \<and> a' < length (h1 @ [h ! a])
            \<and> (h1 @ [h ! a]) ! a' = h ! a"
      using old len by (auto simp: new_chunk_def nth_append) 
    show "distinct (map Metadata (chunks @ [new_chunk doc content (Some (length h1)) idx]))"
      using d fresh by (simp add: new_chunk_def)
  qed
qed

text \<open>
  C7. When \<open>chunkDocument\<close> splits a document, every chunk's metadata is a copy of the
  document's: nil for nil (and the store is untouched); otherwise a map allocated
  during the call, at an address of its own, with exactly the entries of the
  document's map (an empty map for an empty map), and assigning to a key of the chunk's
  map leaves the document's map as it was. Every map of the store before the call is
  unchanged after it. The document's map is taken well formed: allocated, with distinct
  keys.
\<close>

theorem chunk_metadata_is_copy:
  assumes run: "chunkDocument h doc opts = Some (Inr (h', chunks))"
    and split: "Content doc \<noteq> []"
      "sint (MaxTokens opts) < int (length (tokenize (Content doc) (Separator opts)))"
    and wf: "\<forall>a. Metadata doc = Some a \<longrightarrow> a < length h \<and> distinct (map fst (h ! a))"
    and c: "c \<in> set chunks"
  shows "take (length h) h' = h
     \<and> (Metadata doc = None \<longrightarrow> Metadata c = None \<and> h' = h)
     \<and> (\<forall>a. Metadata doc = Some a \<longrightarrow>
          (\<exists>a'. Metadata c = Some a' \<and> a' \<noteq> a \<and> length h \<le> a' \<and> a' < length h'
                \<and> h' ! a' = h ! a \<and> map_of (h' ! a') = map_of (h ! a)
                \<and> (\<forall>k v. map_assign h' a' k v ! a = h ! a))
          \<and> distinct (map Metadata chunks))"
proof -
  let ?tokens = "tokenize (Content doc) (Separator opts)"
  have loop: "chunk_loop doc opts ?tokens h 0 0 [] = Some (Inr (h', chunks))"
    using run split by (simp add: chunkDocument_def Let_def)
  show ?thesis
  proof (cases "Metadata doc")
    case None
    let ?I = "\<lambda>h1 (idx :: goint) (cs :: Document list). h1 = h \<and> (\<forall>c \<in> set cs. Metadata c = None)"
    have "\<exists>idx'. ?I h' idx' chunks"
      using loop
    proof (rule chunk_loop_invariant)
      show "?I h 0 []" by simp
    next
      fix h1 idx cs content
      assume "?I h1 idx cs"
      then show "?I (fst (copyMetadata h1 (Metadata doc))) (idx + 1)
          (cs @ [new_chunk doc content (snd (copyMetadata h1 (Metadata doc))) idx])"
        using None by (simp add: copyMetadata_None new_chunk_def)
    qed
    then show ?thesis using None c by simp
  next
    case (Some a)
    then have a: "a < length h" and d: "distinct (map fst (h ! a))" using wf by auto
    let ?I = "\<lambda>h1 (idx :: goint) (cs :: Document list). copies_inv h a h1 cs"
    have "\<exists>idx'. ?I h' idx' chunks"
      using loop
    proof (rule chunk_loop_invariant)
      show "?I h 0 []" by (simp add: copies_inv_def)
    next
      fix h1 idx cs content
      assume "?I h1 idx cs"
      then show "?I (fst (copyMetadata h1 (Metadata doc))) (idx + 1)
          (cs @ [new_chunk doc content (snd (copyMetadata h1 (Metadata doc))) idx])"
        unfolding Some using a d by (rule copies_inv_step)
    qed
    then have inv: "copies_inv h a h' chunks" by simp
    then obtain a' where a': "Metadata c = Some a'" "length h \<le> a'" "a' < length h'"
        "h' ! a' = h ! a"
      using c unfolding copies_inv_def by blast
    have tk: "take (length h) h' = h" using inv by (simp add: copies_inv_def)
    have "h' ! a = take (length h) h' ! a" using a by simp
    then have same: "h' ! a = h ! a" using tk by simp
    have ne: "a' \<noteq> a" using a a'(2) by simp
    then have "\<forall>k v. map_assign h' a' k v ! a = h ! a"
      using same by (simp add: map_assign_def)
    moreover have "distinct (map Metadata chunks)" using inv by (simp add: copies_inv_def)
    ultimately show ?thesis using Some a' tk ne by simp
  qed
qed

theorem chunk_metadata_is_copy_witness:
  "take (length [[(''team'', ''infra'')]])
     [[(''team'', ''infra'')], [(''team'', ''infra'')], [(''team'', ''infra'')]]
     = [[(''team'', ''infra'')]]
   \<and> (\<exists>a'. Some 2 = Some a' \<and> a' \<noteq> (0::nat) \<and> length [[(''team'', ''infra'')]] \<le> a'
         \<and> [[(''team'', ''infra'')], [(''team'', ''infra'')], [(''team'', ''infra'')]] ! a'
             = [(''team'', ''infra'')]
         \<and> (\<forall>k v. map_assign
                [[(''team'', ''infra'')], [(''team'', ''infra'')], [(''team'', ''infra'')]]
                a' k v ! 0 = [(''team'', ''infra'')]))"
proof -
  let ?h = "[[(''team'', ''infra'')]]"
  let ?h' = "[[(''team'', ''infra'')], [(''team'', ''infra'')], [(''team'', ''infra'')]]"
  let ?doc = "\<lparr>ID = ''doc'', Content = ''a b c'', Title = [], Source = ''test'', URL = [],
        Metadata = Some 0, ChunkIndex = 0, ParentID = [], UpdatedAt = 0\<rparr>"
  let ?opts = "\<lparr>MaxTokens = 2, Overlap = 0, Separator = ''|''\<rparr>"
  let ?c0 = "\<lparr>ID = ''doc#0'', Content = ''a b'', Title = [], Source = ''test'', URL = [],
        Metadata = Some 1, ChunkIndex = 0, ParentID = ''doc'', UpdatedAt = 0\<rparr>"
  let ?c1 = "\<lparr>ID = ''doc#1'', Content = ''c'', Title = [], Source = ''test'', URL = [],
        Metadata = Some 2, ChunkIndex = 1, ParentID = ''doc'', UpdatedAt = 0\<rparr>"
  have run: "chunkDocument ?h ?doc ?opts = Some (Inr (?h', [?c0, ?c1]))"
    by code_simp
  have t: "tokenize (Content ?doc) (Separator ?opts) = [''a'', ''b'', ''c'']"
    by code_simp
  have split: "Content ?doc \<noteq> []"
    "sint (MaxTokens ?opts) < int (length (tokenize (Content ?doc) (Separator ?opts)))"
    unfolding t by simp_all
  have wf: "\<forall>a. Metadata ?doc = Some a \<longrightarrow> a < length ?h \<and> distinct (map fst (?h ! a))"
    by simp
  have c: "?c1 \<in> set [?c0, ?c1]" by simp
  from chunk_metadata_is_copy [OF run split wf c] show ?thesis
    by simp
qed

section \<open>Merging by reference\<close>

lemma LoadDocuments_store_calls:
  "LoadDocuments env r st = (res, st1) \<Longrightarrow> store_calls st1 = store_calls st"
  by (auto simp: LoadDocuments_def store_calls_def split: if_splits prod.splits option.splits sum.splits)

lemma MergeRefs_loop_store_calls:
  "MergeRefs_loop env refs st acc = (res, st1) \<Longrightarrow> store_calls st1 = store_calls st"
proof (induction refs arbitrary: st acc)
  case Nil
  then show ?case by simp
next
  case (Cons r refs)
  obtain x st' where l: "LoadDocuments env r st = (x, st')" by (cases "LoadDocuments env r st")
  then have s: "store_calls st' = store_calls st" by (rule LoadDocuments_store_calls)
  show ?case
  proof (cases x)
    case (Inl e)
    then show ?thesis using Cons.prems l s by simp
  next
    case (Inr docs)
    then have "MergeRefs_loop env refs st' (acc @ docs) = (res, st1)"
      using Cons.prems l by simp
    then show ?thesis using Cons.IH s by simp
  qed
qed

lemma MergeRefs_loop_append:
  "MergeRefs_loop env (ps @ qs) st acc =
     (case MergeRefs_loop env ps st acc of
        (Inl e, st1) \<Rightarrow> (Inl e, st1)
      | (Inr docs, st1) \<Rightarrow> MergeRefs_loop env qs st1 docs)"
  by (induction ps arbitrary: st acc) (auto split: prod.splits sum.splits)

lemma MergeRefs_loop_acc:
  "MergeRefs_loop env refs st (acc @ xs) =
     (case MergeRefs_loop env refs st xs of
        (Inl e, st1) \<Rightarrow> (Inl e, st1)
      | (Inr docs, st1) \<Rightarrow> (Inr (acc @ docs), st1))"
proof (induction refs arbitrary: st xs)
  case Nil
  then show ?case by simp
next
  case (Cons r refs)
  obtain x st' where l: "LoadDocuments env r st = (x, st')" by (cases "LoadDocuments env r st")
  show ?case
  proof (cases x)
    case (Inl e)
    then show ?thesis using l by simp
  next
    case (Inr docs)
    then show ?thesis using l Cons.IH [of st' "xs @ docs"] by simp
  qed
qed

lemma StoreDocuments_store_calls:
  "StoreDocuments env docs st = (res, st1) \<Longrightarrow>
   length (store_calls st1) \<le> length (store_calls st) + 1
   \<and> (\<forall>ref. res = Inr ref \<longrightarrow>
        snd st1 = snd st @ [GetStorageCall, StoreJSONCall (SchemaDocuments env) docs])"
  by (auto simp: StoreDocuments_def store_calls_def split: prod.splits option.splits sum.splits)

text \<open>
  C9. \<open>MergeRefsActivity\<close> fails fast. If the references before \<open>r\<close> load and \<open>r\<close> does
  not, the activity returns that error with the state right after the failed load (no
  later reference is touched) and the trace has no new \<open>StoreJSON\<close> call. A reference
  with another schema tag fails in \<open>LoadDocuments\<close> before any storage access: the state
  and the trace are unchanged. The loaded documents are concatenated in the order of
  the references. If every reference loads, nothing has been stored during the loads,
  \<open>StoreDocuments\<close> runs once on the concatenation (at most one \<open>StoreJSON\<close> call), and a
  nil error comes with exactly that one call, the reference \<open>StoreDocuments\<close> returned
  and the number of merged documents as \<open>Count\<close>.
\<close>

theorem merge_refs_fails_fast:
  "(MergeRefs_loop env ps st [] = (Inr docs, st1) \<and> LoadDocuments env r st1 = (Inl e, st2) \<longrightarrow>
      MergeRefsActivity env \<lparr>Refs = ps @ r # rest\<rparr> st = ((zero_MergeRefsOutput, Some e), st2)
      \<and> store_calls st2 = store_calls st)
   \<and> (Schema r \<noteq> SchemaDocuments env \<longrightarrow>
      LoadDocuments env r st = (Inl (SchemaMismatch (SchemaDocuments env) (Schema r)), st))
   \<and> (LoadDocuments env r st = (Inr d, st1) \<and> MergeRefs_loop env rest st1 [] = (Inr ds, st2) \<longrightarrow>
      MergeRefs_loop env (r # rest) st [] = (Inr (d @ ds), st2))
   \<and> (MergeRefs_loop env refs st [] = (Inr docs, st1) \<longrightarrow>
      store_calls st1 = store_calls st
      \<and> (\<exists>out err st2.
            MergeRefsActivity env \<lparr>Refs = refs\<rparr> st = ((out, err), st2)
            \<and> length (store_calls st2) \<le> length (store_calls st1) + 1
            \<and> (err = None \<longrightarrow>
                 snd st2 = snd st1 @ [GetStorageCall, StoreJSONCall (SchemaDocuments env) docs]
                 \<and> MergeRefsOutput.Count out = of_nat (length docs)
                 \<and> (\<exists>ref. fst (StoreDocuments env docs st1) = Inr ref \<and> Ref out = ref))))"
proof (intro conjI impI)
  assume a: "MergeRefs_loop env ps st [] = (Inr docs, st1) \<and> LoadDocuments env r st1 = (Inl e, st2)"
  then have "MergeRefs_loop env (ps @ r # rest) st [] = (Inl e, st2)"
    by (simp add: MergeRefs_loop_append)
  then show "MergeRefsActivity env \<lparr>Refs = ps @ r # rest\<rparr> st = ((zero_MergeRefsOutput, Some e), st2)"
    by (simp add: MergeRefsActivity_def)
  show "store_calls st2 = store_calls st"
    using a MergeRefs_loop_store_calls [of env ps st "[]"] LoadDocuments_store_calls [of env r st1]
    by simp
next
  assume "Schema r \<noteq> SchemaDocuments env"
  then show "LoadDocuments env r st = (Inl (SchemaMismatch (SchemaDocuments env) (Schema r)), st)"
    by (simp add: LoadDocuments_def)
next
  assume "LoadDocuments env r st = (Inr d, st1) \<and> MergeRefs_loop env rest st1 [] = (Inr ds, st2)"
  then show "MergeRefs_loop env (r # rest) st [] = (Inr (d @ ds), st2)"
    using MergeRefs_loop_acc [of env rest st1 d "[]"] by simp
next
  assume a: "MergeRefs_loop env refs st [] = (Inr docs, st1)"
  then show "store_calls st1 = store_calls st" by (rule MergeRefs_loop_store_calls)
  obtain res st2 where s: "StoreDocuments env docs st1 = (res, st2)"
    by (cases "StoreDocuments env docs st1")
  note sc = StoreDocuments_store_calls [OF s]
  show "\<exists>out err st2.
            MergeRefsActivity env \<lparr>Refs = refs\<rparr> st = ((out, err), st2)
            \<and> length (store_calls st2) \<le> length (store_calls st1) + 1
            \<and> (err = None \<longrightarrow>
                 snd st2 = snd st1 @ [GetStorageCall, StoreJSONCall (SchemaDocuments env) docs]
                 \<and> MergeRefsOutput.Count out = of_nat (length docs)
                 \<and> (\<exists>ref. fst (StoreDocuments env docs st1) = Inr ref \<and> Ref out = ref))"
  proof (cases res)
    case (Inl err)
    then show ?thesis using a s sc by (simp add: MergeRefsActivity_def)
  next
    case (Inr ref)
    then show ?thesis using a s sc by (simp add: MergeRefsActivity_def)
  qed
qed

theorem merge_refs_fails_fast_witness:
  "MergeRefsActivity example_core
     \<lparr>Refs = [\<lparr>Schema = ''documents'', DataRef.Count = 1, Checksum = [], Handle = ''a''\<rparr>]
             @ \<lparr>Schema = ''documents'', DataRef.Count = 1, Checksum = [], Handle = ''gone''\<rparr>
             # [\<lparr>Schema = ''documents'', DataRef.Count = 1, Checksum = [], Handle = ''b''\<rparr>]\<rparr>
     (0, [])
   = ((zero_MergeRefsOutput, Some (Wrapped ''load documents'' (External ''not found''))),
      (0, [GetStorageCall,
           LoadJSONCall \<lparr>Schema = ''documents'', DataRef.Count = 1, Checksum = [], Handle = ''a''\<rparr>,
           GetStorageCall,
           LoadJSONCall \<lparr>Schema = ''documents'', DataRef.Count = 1, Checksum = [], Handle = ''gone''\<rparr>]))
   \<and> LoadDocuments example_core
        \<lparr>Schema = ''tickets'', DataRef.Count = 1, Checksum = [], Handle = ''a''\<rparr> (0, [])
      = (Inl (SchemaMismatch ''documents'' ''tickets''), (0, []))
   \<and> (\<exists>out err st2.
        MergeRefsActivity example_core
          \<lparr>Refs = [\<lparr>Schema = ''documents'', DataRef.Count = 1, Checksum = [], Handle = ''a''\<rparr>,
                   \<lparr>Schema = ''documents'', DataRef.Count = 1, Checksum = [], Handle = ''b''\<rparr>]\<rparr>
          (0, []) = ((out, err), st2)
        \<and> err = None \<and> MergeRefsOutput.Count out = 2 \<and> length (store_calls st2) = 1)"
proof -
  let ?a = "\<lparr>Schema = ''documents'', DataRef.Count = 1, Checksum = [], Handle = ''a''\<rparr>"
  let ?b = "\<lparr>Schema = ''documents'', DataRef.Count = 1, Checksum = [], Handle = ''b''\<rparr>"
  let ?gone = "\<lparr>Schema = ''documents'', DataRef.Count = 1, Checksum = [], Handle = ''gone''\<rparr>"
  let ?t = "\<lparr>Schema = ''tickets'', DataRef.Count = 1, Checksum = [], Handle = ''a''\<rparr>"
  let ?da = "\<lparr>ID = ''a'', Content = [], Title = [], Source = [], URL = [],
              Metadata = None, ChunkIndex = 0, ParentID = [], UpdatedAt = 0\<rparr>"
  let ?db = "\<lparr>ID = ''b'', Content = [], Title = [], Source = [], URL = [],
              Metadata = None, ChunkIndex = 0, ParentID = [], UpdatedAt = 0\<rparr>"
  let ?st1 = "(0 :: nat, [GetStorageCall, LoadJSONCall ?a])"
  let ?st2 = "(0 :: nat, [GetStorageCall, LoadJSONCall ?a, GetStorageCall, LoadJSONCall ?gone])"
  let ?st3 = "(0 :: nat, [GetStorageCall, LoadJSONCall ?a, GetStorageCall, LoadJSONCall ?b])"
  have l1: "MergeRefs_loop example_core [?a] (0, []) [] = (Inr [?da], ?st1)"
    by (simp add: LoadDocuments_def example_core_def)
  have l2: "LoadDocuments example_core ?gone ?st1
      = (Inl (Wrapped ''load documents'' (External ''not found'')), ?st2)"
    by (simp add: LoadDocuments_def example_core_def)
  have l3: "Schema ?t \<noteq> SchemaDocuments example_core"
    by (simp add: example_core_def)
  have l4: "MergeRefs_loop example_core [?a, ?b] (0, []) [] = (Inr [?da, ?db], ?st3)"
    by (simp add: LoadDocuments_def example_core_def)
  have s: "StoreDocuments example_core [?da, ?db] ?st3
      = (Inr \<lparr>Schema = ''documents'', DataRef.Count = 2, Checksum = ''json'', Handle = ''merged''\<rparr>,
         (Suc 0, snd ?st3 @ [GetStorageCall, StoreJSONCall ''documents'' [?da, ?db]]))"
    by (simp add: StoreDocuments_def example_core_def)
  have c1: "MergeRefsActivity example_core \<lparr>Refs = [?a] @ ?gone # [?b]\<rparr> (0, [])
      = ((zero_MergeRefsOutput, Some (Wrapped ''load documents'' (External ''not found''))), ?st2)"
    using merge_refs_fails_fast [of example_core "[?a]" "(0, [])" "[?da]" ?st1 ?gone _ ?st2 "[?b]"]
      l1 l2 by blast
  have c2: "LoadDocuments example_core ?t (0, [])
      = (Inl (SchemaMismatch ''documents'' ''tickets''), (0, []))"
    using merge_refs_fails_fast [of example_core "[]" "(0, [])" "[]" "(0, [])" ?t] l3
    by (simp add: example_core_def)
  have l5: "LoadDocuments example_core ?a (0, []) = (Inr [?da], ?st1)"
    by (simp add: LoadDocuments_def example_core_def)
  have l6: "MergeRefs_loop example_core [?b] ?st1 [] = (Inr [?db], ?st3)"
    by (simp add: LoadDocuments_def example_core_def)
  have c3: "MergeRefs_loop example_core [?a, ?b] (0, []) [] = (Inr [?da, ?db], ?st3)"
    using merge_refs_fails_fast
      [where env = example_core and r = ?a and st = "(0, [])" and d = "[?da]" and ?st1.0 = ?st1
         and rest = "[?b]" and ds = "[?db]" and ?st2.0 = ?st3,
       THEN conjunct2, THEN conjunct2, THEN conjunct1]
      l5 l6 by simp
  have e: "MergeRefsActivity example_core \<lparr>Refs = [?a, ?b]\<rparr> (0, [])
      = ((\<lparr>Ref = \<lparr>Schema = ''documents'', DataRef.Count = 2, Checksum = ''json'',
                      Handle = ''merged''\<rparr>,
            MergeRefsOutput.Count = 2\<rparr>, None),
         (Suc 0, snd ?st3 @ [GetStorageCall, StoreJSONCall ''documents'' [?da, ?db]]))"
    using c3 s by (simp add: MergeRefsActivity_def)
  have "\<exists>out err st2.
        MergeRefsActivity example_core \<lparr>Refs = [?a, ?b]\<rparr> (0, []) = ((out, err), st2)
        \<and> length (store_calls st2) \<le> length (store_calls ?st3) + 1"
    using merge_refs_fails_fast
      [where env = example_core and refs = "[?a, ?b]" and st = "(0, [])" and docs = "[?da, ?db]"
         and ?st1.0 = ?st3,
       THEN conjunct2, THEN conjunct2, THEN conjunct2]
      c3 by blast
  then have "\<exists>out err st2.
        MergeRefsActivity example_core \<lparr>Refs = [?a, ?b]\<rparr> (0, []) = ((out, err), st2)
        \<and> err = None \<and> MergeRefsOutput.Count out = 2 \<and> length (store_calls st2) = 1"
    using e by (simp add: store_calls_def)
  then show ?thesis using c1 c2 by blast
qed

section \<open>Chunk identifiers\<close>

lemma AsChunk_fields:
  "ParentID (AsChunk d parentID index) = parentID \<and> ChunkIndex (AsChunk d parentID index) = index"
  by (simp add: AsChunk_def)

lemma chunk_loop_ids:
  assumes "chunk_loop doc opts tokens h start idx chunks = Some (Inr (h', cs))"
    and "idx = of_nat (length chunks)"
    and "\<forall>i < length chunks. ChunkIndex (chunks ! i) = of_nat i \<and> ParentID (chunks ! i) = ID doc
            \<and> ID (chunks ! i) = ID doc @ ''#'' @ itoa (of_nat i)"
  shows "\<forall>i < length cs. ChunkIndex (cs ! i) = of_nat i \<and> ParentID (cs ! i) = ID doc
            \<and> ID (cs ! i) = ID doc @ ''#'' @ itoa (of_nat i)"
proof -
  let ?I = "\<lambda>(h1 :: heap) (idx :: goint) (cs :: Document list).
     idx = of_nat (length cs)
     \<and> (\<forall>i < length cs. ChunkIndex (cs ! i) = of_nat i \<and> ParentID (cs ! i) = ID doc
            \<and> ID (cs ! i) = ID doc @ ''#'' @ itoa (of_nat i))"
  have "\<exists>idx'. ?I h' idx' cs"
    using assms(1)
  proof (rule chunk_loop_invariant)
    show "?I h idx chunks" using assms(2,3) by simp
  next
    fix h1 idx cs content
    assume "?I h1 idx cs"
    then show "?I (fst (copyMetadata h1 (Metadata doc))) (idx + 1)
        (cs @ [new_chunk doc content (snd (copyMetadata h1 (Metadata doc))) idx])"
      by (auto simp: nth_append new_chunk_def less_Suc_eq)
  qed
  then show ?thesis by simp
qed

lemma chunkDocument_chunk_ids:
  assumes "chunkDocument h doc opts = Some (Inr (h', chunks))"
    and "Content doc \<noteq> []"
    and "sint (MaxTokens opts) < int (length (tokenize (Content doc) (Separator opts)))"
    and "i < length chunks"
  shows "ChunkIndex (chunks ! i) = of_nat i \<and> ParentID (chunks ! i) = ID doc
         \<and> ID (chunks ! i) = ParentID (chunks ! i) @ ''#'' @ itoa (ChunkIndex (chunks ! i))"
proof -
  have "chunk_loop doc opts (tokenize (Content doc) (Separator opts)) h 0 0 []
          = Some (Inr (h', chunks))"
    using assms(1-3) by (simp add: chunkDocument_def Let_def)
  from chunk_loop_ids [OF this] show ?thesis using assms(4) by simp
qed

lemma encoderune_digit:
  "\<forall>n \<in> set [0..<10].
     encoderune (sint (ucast (48 + of_nat n :: goint) :: 32 word)) = itoa (of_nat n)"
  by code_simp

lemma AsChunk_single_digit:
  assumes "n < 10"
  shows "ID (AsChunk d parentID (of_nat n)) = parentID @ ''#'' @ itoa (of_nat n)"
proof -
  have "n \<in> set [0..<10]" using assms by simp
  then have "encoderune (sint (ucast (48 + of_nat n :: goint) :: 32 word)) = itoa (of_nat n)"
    using encoderune_digit by blast
  then show ?thesis by (simp add: AsChunk_def)
qed

text \<open>
  C3. The chunks of \<open>chunkDocument\<close> carry the indices 0, 1, ... in order, the document's
  id as parentID and the id \<open>parentID + "#" + itoa chunkIndex\<close> (the lemmas above), and
  \<open>AsChunk\<close> agrees with that for the indices 0 to 9. The claim that the rule holds for
  \<open>AsChunk\<close> at every nonnegative index fails on the code: \<open>AsChunk\<close> appends the one
  character with code \<open>'0' + index\<close>, which for index 10 is a colon, where the decimal
  rendering that \<open>chunkDocument\<close> uses is \<open>10\<close>.
\<close>

theorem AsChunk_id_not_decimal:
  "ID (AsChunk d ''doc'' 10) = ''doc#:'' \<and> itoa 10 = ''10''
   \<and> ID (AsChunk d ''doc'' 10) \<noteq> ''doc'' @ ''#'' @ itoa 10"
proof -
  have c: "char_of (58 :: int) = CHR '':''" by code_simp
  have a: "ID (AsChunk d ''doc'' 10) = ''doc#:''"
    by (simp add: AsChunk_def encoderune_def c)
  have b: "itoa 10 = ''10''" by code_simp
  show ?thesis unfolding a b by simp
qed

section \<open>Tokenizing\<close>

lemma genSplit_absent:
  "sep \<noteq> [] \<Longrightarrow> \<not> sublist sep s \<Longrightarrow> genSplit sep cur s = [cur @ s]"
proof (induction s arbitrary: cur)
  case Nil
  then show ?case by simp
next
  case (Cons c cs)
  have "\<not> prefix sep (c # cs)" using Cons.prems(2) prefix_imp_sublist by blast
  moreover have "\<not> sublist sep cs" using Cons.prems(2) by (auto simp: sublist_Cons_right)
  ultimately show ?case using Cons.IH [of "cur @ [c]"] Cons.prems(1) by simp
qed

lemma tokenize_absent_separator:
  assumes "separator \<noteq> []" and "\<not> sublist separator text"
  shows "tokenize text separator = Fields text"
  using assms by (simp add: tokenize_def Split_def genSplit_absent)

text \<open>
  C4. With a separator that is not empty and does not occur in the text, \<open>tokenize\<close> is
  \<open>strings.Fields\<close> of the whole text (the lemma above). The claim that an empty
  separator gives the same fails on the code: \<open>strings.Split\<close> with an empty separator
  cuts after every UTF-8 sequence, so every character that is not white space is a token
  of its own.
\<close>

theorem tokenize_empty_separator:
  "tokenize ''ab cd'' [] = [''a'', ''b'', ''c'', ''d''] \<and> Fields ''ab cd'' = [''ab'', ''cd'']"
  by code_simp

section \<open>Negative maxTokens\<close>

lemma chunk_loop_no_panic:
  assumes M0: "0 \<le> sint (MaxTokens opts)"
    and MN: "sint (MaxTokens opts) < int (length tokens)"
    and N62: "int (length tokens) < 2 ^ 62"
  shows "0 \<le> sint start \<Longrightarrow> start = 0 \<or> sint (chunk_step opts) \<le> sint start \<Longrightarrow>
     \<exists>h' cs. chunk_loop doc opts tokens h start idx chunks = Some (Inr (h', cs))"
proof (induction h start idx chunks
    rule: chunk_loop_induct [where tokens = tokens and opts = opts and doc = doc])
  case (iter h start idx chunks)
  let ?N = "int (length tokens)"
  let ?h1 = "fst (copyMetadata h (Metadata doc))"
  let ?c = "new_chunk doc (Join (window opts tokens start) '' '')
              (snd (copyMetadata h (Metadata doc))) idx"
  have s0: "0 \<le> sint start" using iter.prems by simp
  show ?case
  proof (cases "sint start < ?N")
    case False
    then show ?thesis by (subst chunk_loop_unfold) simp
  next
    case sN: True
    have we: "window_end opts tokens start = min ?N (sint start + sint (MaxTokens opts))"
      using s0 sN N62 MN M0 by (rule window_end_min)
    then have ge: "sint start \<le> window_end opts tokens start"
      using sN M0 by simp
    show ?thesis
    proof (cases "?N \<le> window_end opts tokens start")
      case True
      then show ?thesis using s0 sN ge by (subst chunk_loop_unfold) simp
    next
      case False
      have st1: "1 \<le> sint (chunk_step opts)" by (rule chunk_step_ge1)
      have next_ok: "0 \<le> sint (start + chunk_step opts)
          \<and> sint (chunk_step opts) \<le> sint (start + chunk_step opts)"
      proof (cases "start = 0")
        case True
        then show ?thesis using st1 by simp
      next
        case ne: False
        then have le: "sint (chunk_step opts) \<le> sint start" using iter.prems(2) by simp
        have p: "(2::int) ^ 63 = 2 * 2 ^ 62" by simp
        have "sint start + sint (chunk_step opts) < 2 ^ 63"
          using sN N62 le unfolding p by linarith
        moreover have "- (2 ^ 63) \<le> sint start + sint (chunk_step opts)"
          using s0 st1 zero_le_power [of "2::int" 63] by linarith
        ultimately have "sint (start + chunk_step opts) = sint start + sint (chunk_step opts)"
          by (simp add: sint_add_64 Let_def)
        then show ?thesis using s0 st1 by simp
      qed
      have "\<exists>h' cs. chunk_loop doc opts tokens ?h1 (start + chunk_step opts) (idx + 1)
                (chunks @ [?c]) = Some (Inr (h', cs))"
        using s0 sN ge False next_ok by (intro iter.IH) auto
      then show ?thesis using s0 sN ge False by (subst chunk_loop_unfold) simp
    qed
  qed
qed

lemma chunkDocument_no_panic:
  assumes "0 \<le> sint (MaxTokens opts)"
    and "int (length (tokenize (Content doc) (Separator opts))) < 2 ^ 62"
  shows "\<exists>h' chunks. chunkDocument h doc opts = Some (Inr (h', chunks))"
proof (cases "Content doc = []
    \<or> int (length (tokenize (Content doc) (Separator opts))) \<le> sint (MaxTokens opts)")
  case True
  then show ?thesis by (auto simp: chunkDocument_def Let_def)
next
  case False
  then have "chunkDocument h doc opts
      = chunk_loop doc opts (tokenize (Content doc) (Separator opts)) h 0 0 []"
    by (simp add: chunkDocument_def Let_def)
  moreover have "\<exists>h' cs. chunk_loop doc opts (tokenize (Content doc) (Separator opts)) h 0 0 []
      = Some (Inr (h', cs))"
    using assms False by (intro chunk_loop_no_panic) auto
  ultimately show ?thesis by simp
qed

lemma chunk_documents_no_panic:
  assumes "0 \<le> sint (MaxTokens opts)"
    and "\<forall>doc \<in> set docs. int (length (tokenize (Content doc) (Separator opts))) < 2 ^ 62"
  shows "\<exists>h' cs. chunk_documents h opts docs chunked = Some (Inr (h', cs))"
  using assms(2)
proof (induction docs arbitrary: h chunked)
  case Nil
  then show ?case by simp
next
  case (Cons doc docs)
  obtain h1 cs where "chunkDocument h doc opts = Some (Inr (h1, cs))"
    using chunkDocument_no_panic [OF assms(1), of doc h] Cons.prems by auto
  then show ?case using Cons.IH [of h1 "chunked @ cs"] Cons.prems by simp
qed

text \<open>
  C5. With maxTokens zero or above, \<open>chunkDocument\<close> and the loop over the documents
  never panic (the lemmas above; zero is replaced by the defaults in the activities).
  The claim that a negative maxTokens is resolved without a panic fails on the code:
  only zero is replaced, the window end \<open>start + maxTokens\<close> is below the window start,
  and the slice expression \<open>tokens[start:end]\<close> panics.
\<close>

theorem ChunkActivity_negative_maxTokens_panics:
  "ChunkActivity []
     \<lparr>ChunkInput.Documents =
        [\<lparr>ID = ''doc'', Content = ''a b'', Title = [], Source = ''test'', URL = [],
          Metadata = None, ChunkIndex = 0, ParentID = [], UpdatedAt = 0\<rparr>],
      ChunkInput.Options = \<lparr>MaxTokens = - 1, Overlap = 0, Separator = []\<rparr>\<rparr>
   = Some (Inl SliceBoundsOutOfRange)"
  by code_simp

section \<open>The activities\<close>

lemma chunkDocument_returns: "\<exists>r. chunkDocument h doc opts = Some r"
  by (simp add: chunkDocument_def Let_def chunk_loop_returns)

lemma chunk_documents_returns: "\<exists>r. chunk_documents h opts docs chunked = Some r"
proof (induction docs arbitrary: h chunked)
  case Nil
  then show ?case by simp
next
  case (Cons doc docs)
  obtain r where r: "chunkDocument h doc opts = Some r"
    using chunkDocument_returns by blast
  show ?case
  proof (cases r)
    case (Inl p)
    then show ?thesis using r by simp
  next
    case (Inr hc)
    then show ?thesis using r Cons.IH by (cases hc) simp
  qed
qed

lemma activities_nil_error:
  "MergeActivity minput = Inr (mout, merr) \<Longrightarrow>
     merr = None \<and> MergeOutput.Count mout = of_nat (length (MergeOutput.Documents mout))"
  "\<exists>r. ChunkActivity h cinput = Some r"
  "ChunkActivity h cinput = Some (Inr (h', cout, cerr)) \<Longrightarrow>
     cerr = None \<and> ChunkOutput.Count cout = of_nat (length (ChunkOutput.Documents cout))"
  "\<exists>r. MergeAndChunkActivity h mcinput = Some r"
  "MergeAndChunkActivity h mcinput = Some (Inr (h', mcout, mcerr)) \<Longrightarrow>
     mcerr = None
     \<and> MergeAndChunkOutput.Count mcout = of_nat (length (MergeAndChunkOutput.Documents mcout))"
proof -
  show "merr = None \<and> MergeOutput.Count mout = of_nat (length (MergeOutput.Documents mout))"
    if "MergeActivity minput = Inr (mout, merr)"
    using that by (auto simp: MergeActivity_def split: sum.splits)
  show "\<exists>r. ChunkActivity h cinput = Some r"
  proof -
    let ?opts = "if MaxTokens (ChunkInput.Options cinput) = 0 then DefaultChunkOptions
                 else ChunkInput.Options cinput"
    obtain r where "chunk_documents h ?opts (ChunkInput.Documents cinput) [] = Some r"
      using chunk_documents_returns by blast
    then show ?thesis
      by (cases r) (auto simp: ChunkActivity_def Let_def)
  qed
  show "cerr = None \<and> ChunkOutput.Count cout = of_nat (length (ChunkOutput.Documents cout))"
    if "ChunkActivity h cinput = Some (Inr (h', cout, cerr))"
    using that
    by (auto simp: ChunkActivity_def Let_def split: option.splits sum.splits prod.splits if_splits)
  show "\<exists>r. MergeAndChunkActivity h mcinput = Some r"
  proof (cases "append_sources (MergeAndChunkInput.Sources mcinput) []")
    case (Inl p)
    then show ?thesis by (simp add: MergeAndChunkActivity_def)
  next
    case (Inr docs)
    let ?opts = "if MaxTokens (MergeAndChunkInput.Options mcinput) = 0 then DefaultChunkOptions
                 else MergeAndChunkInput.Options mcinput"
    obtain r where "chunk_documents h ?opts docs [] = Some r"
      using chunk_documents_returns by blast
    then show ?thesis
      using Inr by (cases r) (auto simp: MergeAndChunkActivity_def Let_def)
  qed
  show "mcerr = None
     \<and> MergeAndChunkOutput.Count mcout = of_nat (length (MergeAndChunkOutput.Documents mcout))"
    if "MergeAndChunkActivity h mcinput = Some (Inr (h', mcout, mcerr))"
    using that
    by (auto simp: MergeAndChunkActivity_def Let_def split: option.splits sum.splits prod.splits if_splits)
qed

text \<open>
  C10. \<open>MergeActivity\<close>, \<open>ChunkActivity\<close> and \<open>MergeAndChunkActivity\<close> return a nil
  error and the length of their documents as \<open>Count\<close> whenever they return (the lemmas
  above). The claim that they return a nil error for every input fails on
  the code: with a negative maxTokens and a document that has a token,
  \<open>MergeAndChunkActivity\<close> panics in \<open>chunkDocument\<close> and returns nothing.
\<close>

theorem MergeAndChunkActivity_negative_maxTokens_panics:
  "MergeAndChunkActivity []
     \<lparr>MergeAndChunkInput.Sources =
        [SourceDocumentBatch
           \<lparr>DocumentBatch.Documents =
              [\<lparr>ID = ''doc'', Content = ''one two three'', Title = [], Source = ''test'', URL = [],
                Metadata = None, ChunkIndex = 0, ParentID = [], UpdatedAt = 0\<rparr>],
            Source = ''test'', Cursor = []\<rparr>],
      MergeAndChunkInput.Options = \<lparr>MaxTokens = - 512, Overlap = 50, Separator = [CHR 0x0A, CHR 0x0A]\<rparr>\<rparr>
   = Some (Inl SliceBoundsOutOfRange)"
  by code_simp

end
